theory Spec2Isabelle
  imports Main
begin

section \<open>Python values used by \<open>deidentify_data\<close>\<close>

text \<open>
  Python strings are sequences of code points. The model uses HOL strings for the input,
  the cells and the CSV text: each \<^typ>\<open>char\<close> stands for one code point in the range
  U+0000..U+00FF.
  Exceptions are values: every function that can raise returns \<open>error + 'a\<close>,
  with \<open>Inl\<close> for the exception.
\<close>

datatype error =
    StopIteration
  | CsvError string
  | AnalyzerError string
  | AnonymizerError string

text \<open>
  \<open>str.isspace\<close> on one code point: the Unicode white space below U+0100 is
  TAB..CR, FS..US, SPACE, NEL (U+0085) and NBSP (U+00A0).
\<close>

definition isspace :: "char \<Rightarrow> bool" where
  "isspace c = ((of_char c :: nat) \<in> {9, 10, 11, 12, 13, 28, 29, 30, 31, 32, 133, 160})"

text \<open>\<open>str.strip()\<close> with no argument: drops white space at both ends.\<close>

definition strip :: "string \<Rightarrow> string" where
  "strip s = rev (dropWhile isspace (rev (dropWhile isspace s)))"

subsection \<open>The two Presidio engines\<close>

text \<open>
  \<open>analyzer.analyze(text=..., language=...)\<close> returns a list of recognizer results, of
  which the pipeline reads only \<open>entity_type\<close>. \<open>anonymizer.anonymize(text=...,
  analyzer_results=..., operators=...)\<close> returns an object whose \<open>text\<close> the pipeline
  reads. Both live outside the repository, so they are parameters of the model, and
  both may raise.
\<close>

record recognizer_result =
  entity_type :: string
  start :: nat
  stop :: nat

record operator_config =
  operator_name :: string
  params :: "(string \<times> string) list"

type_synonym analyzer = "string \<Rightarrow> string \<Rightarrow> error + recognizer_result list"

type_synonym anonymizer =
  "string \<Rightarrow> recognizer_result list \<Rightarrow> (string \<times> operator_config) list \<Rightarrow> error + string"

text \<open>The argument of line 40:
  \<^verbatim>\<open>{"DEFAULT": OperatorConfig("replace", {"new_value": "XXXXXX"})}\<close>.\<close>

definition operators :: "(string \<times> operator_config) list" where
  "operators =
     [(''DEFAULT'', \<lparr>operator_name = ''replace'', params = [(''new_value'', ''XXXXXX'')]\<rparr>)]"

subsection \<open>The dictionary \<open>total_pii_found\<close>\<close>

text \<open>
  A Python dict keeps its keys in insertion order, and the report iterates over
  \<open>items()\<close>, so the dictionary is an association list with distinct keys: assigning to
  a present key keeps its position, assigning to a new key appends it.
\<close>

type_synonym counts = "(string \<times> int) list"

fun dict_get :: "counts \<Rightarrow> string \<Rightarrow> int \<Rightarrow> int" where
  "dict_get [] k d = d"
| "dict_get ((k', v) # m) k d = (if k' = k then v else dict_get m k d)"

fun dict_set :: "counts \<Rightarrow> string \<Rightarrow> int \<Rightarrow> counts" where
  "dict_set [] k v = [(k, v)]"
| "dict_set ((k', v') # m) k v =
     (if k' = k then (k', v) # m else (k', v') # dict_set m k v)"

text \<open>Lines 45--47: one increment per entity of \<open>results\<close>, in order.\<close>

fun update_counts :: "recognizer_result list \<Rightarrow> counts \<Rightarrow> counts" where
  "update_counts [] total_pii_found = total_pii_found"
| "update_counts (entity # rest) total_pii_found =
     update_counts rest
       (dict_set total_pii_found (entity_type entity) (dict_get total_pii_found (entity_type entity) 0 + 1))"

section \<open>The cell loop (lines 27--47)\<close>

text \<open>
  \<open>enumerate(row)\<close> pairs each cell with its index. The loop state is the copy
  \<open>deidentified_row\<close> and the dictionary. The index written at line 42 is always in
  range, since \<open>deidentified_row\<close> is a copy of \<open>row\<close>.
\<close>

definition enumerate_from :: "nat \<Rightarrow> 'a list \<Rightarrow> (nat \<times> 'a) list" where
  "enumerate_from k xs = zip [k ..< k + length xs] xs"

fun cell_loop ::
  "analyzer \<Rightarrow> anonymizer \<Rightarrow> (nat \<times> string) list \<Rightarrow> string list \<times> counts
     \<Rightarrow> error + (string list \<times> counts)" where
  "cell_loop an ano [] st = Inr st"
| "cell_loop an ano ((i, cell) # rest) (deidentified_row, total_pii_found) =
     (if strip cell = '''' then cell_loop an ano rest (deidentified_row, total_pii_found)
      else
        (case an cell ''en'' of
           Inl e \<Rightarrow> Inl e
         | Inr results \<Rightarrow>
             if results \<noteq> [] then
               (case ano cell results operators of
                  Inl e \<Rightarrow> Inl e
                | Inr text \<Rightarrow>
                    cell_loop an ano rest
                      (deidentified_row[i := text], update_counts results total_pii_found))
             else cell_loop an ano rest (deidentified_row, total_pii_found)))"

definition process_row ::
  "analyzer \<Rightarrow> anonymizer \<Rightarrow> string list \<Rightarrow> counts \<Rightarrow> error + (string list \<times> counts)" where
  "process_row an ano row total_pii_found = cell_loop an ano (enumerate_from 0 row) (row, total_pii_found)"

section \<open>The \<open>csv\<close> module with its default dialect\<close>

text \<open>
  \<open>csv.reader\<close> and \<open>csv.writer\<close> are called with no dialect argument, so both use
  \<open>excel\<close>: delimiter comma, quote character \<open>"\<close>, \<open>doublequote\<close> on, no escape
  character, \<open>skipinitialspace\<close> off, line terminator CR LF, \<open>QUOTE_MINIMAL\<close>,
  \<open>strict\<close> off. The definitions below follow CPython's \<open>_csv\<close> module for this
  dialect (version 3.11 or later, where a NUL in a line is an ordinary character); the
  branches that need an escape character are unreachable and left out.
\<close>

definition LF :: char where "LF = CHR 0x0A"
definition CR :: char where "CR = CHR 0x0D"
definition delimiter :: char where "delimiter = CHR '',''"
definition quotechar :: char where "quotechar = CHR 0x22"
definition lineterminator :: string where "lineterminator = [CR, LF]"

subsection \<open>\<open>io.StringIO(input_csv_content)\<close> as an iterator of lines\<close>

text \<open>
  \<open>StringIO\<close> is built with its default \<open>newline='\n'\<close>: a line ends after each LF
  and nowhere else, and the line keeps its ending. The last line may lack one.
\<close>

fun StringIO_lines :: "string \<Rightarrow> string list" where
  "StringIO_lines [] = []"
| "StringIO_lines (c # cs) =
     (if c = LF then [c] # StringIO_lines cs
      else (case StringIO_lines cs of [] \<Rightarrow> [[c]] | l # ls \<Rightarrow> (c # l) # ls))"

subsection \<open>The reader\<close>

datatype parser_state =
  START_RECORD | START_FIELD | IN_FIELD | IN_QUOTED_FIELD | QUOTE_IN_QUOTED_FIELD | EAT_CRNL

text \<open>What \<open>parse_process_char\<close> is fed: a character of the line, or the mark \<open>EOL\<close>
  after the line's last character.\<close>

datatype sym = Ch char | EOL

record reader =
  state :: parser_state
  fields' :: "string list"
  field :: string

definition field_size_limit :: nat where "field_size_limit = 131072"

definition parse_add_char :: "reader \<Rightarrow> char \<Rightarrow> error + reader" where
  "parse_add_char self c =
     (if field_size_limit \<le> length (field self)
      then Inl (CsvError ''field larger than field limit (131072)'')
      else Inr (self\<lparr>field := field self @ [c]\<rparr>))"

definition parse_save_field :: "reader \<Rightarrow> reader" where
  "parse_save_field self = self\<lparr>fields' := fields' self @ [field self], field := []\<rparr>"

text \<open>The body of \<open>case START_FIELD\<close>, which \<open>case START_RECORD\<close> falls through to.\<close>

fun start_field :: "reader \<Rightarrow> sym \<Rightarrow> error + reader" where
  "start_field self EOL = Inr ((parse_save_field self)\<lparr>state := START_RECORD\<rparr>)"
| "start_field self (Ch c) =
     (if c = LF \<or> c = CR then Inr ((parse_save_field self)\<lparr>state := EAT_CRNL\<rparr>)
      else if c = quotechar then Inr (self\<lparr>state := IN_QUOTED_FIELD\<rparr>)
      else if c = delimiter then Inr (parse_save_field self)
      else (case parse_add_char self c of
              Inl e \<Rightarrow> Inl e
            | Inr self' \<Rightarrow> Inr (self'\<lparr>state := IN_FIELD\<rparr>)))"

fun in_field :: "reader \<Rightarrow> sym \<Rightarrow> error + reader" where
  "in_field self EOL = Inr ((parse_save_field self)\<lparr>state := START_RECORD\<rparr>)"
| "in_field self (Ch c) =
     (if c = LF \<or> c = CR then Inr ((parse_save_field self)\<lparr>state := EAT_CRNL\<rparr>)
      else if c = delimiter then Inr ((parse_save_field self)\<lparr>state := START_FIELD\<rparr>)
      else parse_add_char self c)"

fun in_quoted_field :: "reader \<Rightarrow> sym \<Rightarrow> error + reader" where
  "in_quoted_field self EOL = Inr self"
| "in_quoted_field self (Ch c) =
     (if c = quotechar then Inr (self\<lparr>state := QUOTE_IN_QUOTED_FIELD\<rparr>)
      else parse_add_char self c)"

fun quote_in_quoted_field :: "reader \<Rightarrow> sym \<Rightarrow> error + reader" where
  "quote_in_quoted_field self EOL = Inr ((parse_save_field self)\<lparr>state := START_RECORD\<rparr>)"
| "quote_in_quoted_field self (Ch c) =
     (if c = quotechar then
        (case parse_add_char self c of
           Inl e \<Rightarrow> Inl e
         | Inr self' \<Rightarrow> Inr (self'\<lparr>state := IN_QUOTED_FIELD\<rparr>))
      else if c = delimiter then Inr ((parse_save_field self)\<lparr>state := START_FIELD\<rparr>)
      else if c = LF \<or> c = CR then Inr ((parse_save_field self)\<lparr>state := EAT_CRNL\<rparr>)
      else (case parse_add_char self c of
              Inl e \<Rightarrow> Inl e
            | Inr self' \<Rightarrow> Inr (self'\<lparr>state := IN_FIELD\<rparr>)))"

fun eat_crnl :: "reader \<Rightarrow> sym \<Rightarrow> error + reader" where
  "eat_crnl self EOL = Inr (self\<lparr>state := START_RECORD\<rparr>)"
| "eat_crnl self (Ch c) =
     (if c = LF \<or> c = CR then Inr self
      else Inl (CsvError
             (''new-line character seen in unquoted field - ''
              @ ''do you need to open the file with newline=''
              @ [CHR 0x27, CHR 0x27, CHR ''?''])))"

fun start_record :: "reader \<Rightarrow> sym \<Rightarrow> error + reader" where
  "start_record self EOL = Inr self"
| "start_record self (Ch c) =
     (if c = LF \<or> c = CR then Inr (self\<lparr>state := EAT_CRNL\<rparr>)
      else start_field (self\<lparr>state := START_FIELD\<rparr>) (Ch c))"

definition parse_process_char :: "reader \<Rightarrow> sym \<Rightarrow> error + reader" where
  "parse_process_char self c =
     (case state self of
        START_RECORD \<Rightarrow> start_record self c
      | START_FIELD \<Rightarrow> start_field self c
      | IN_FIELD \<Rightarrow> in_field self c
      | IN_QUOTED_FIELD \<Rightarrow> in_quoted_field self c
      | QUOTE_IN_QUOTED_FIELD \<Rightarrow> quote_in_quoted_field self c
      | EAT_CRNL \<Rightarrow> eat_crnl self c)"

text \<open>The inner \<open>while (linelen--)\<close> loop of \<open>Reader_iternext\<close>, then the \<open>EOL\<close> mark.\<close>

fun process_line :: "reader \<Rightarrow> string \<Rightarrow> error + reader" where
  "process_line self [] = parse_process_char self EOL"
| "process_line self (c # cs) =
     (case parse_process_char self (Ch c) of
        Inl e \<Rightarrow> Inl e
      | Inr self' \<Rightarrow> process_line self' cs)"

text \<open>
  The \<open>do ... while (self->state != START_RECORD)\<close> loop: it takes lines from the
  input iterator until a record is complete. At the end of the input a record in
  progress is returned as it stands (\<open>strict\<close> is off); with none in progress the
  reader is exhausted. The result is the record and the lines not yet read.
\<close>

fun read_record :: "reader \<Rightarrow> string list \<Rightarrow> error + (string list \<times> string list)" where
  "read_record self [] =
     (if 0 < length (field self) \<or> state self = IN_QUOTED_FIELD
      then Inr (fields' (parse_save_field self), [])
      else Inl StopIteration)"
| "read_record self (lineobj # input_iter) =
     (case process_line self lineobj of
        Inl e \<Rightarrow> Inl e
      | Inr self' \<Rightarrow>
          if state self' = START_RECORD then Inr (fields' self', input_iter)
          else read_record self' input_iter)"

text \<open>\<open>next(reader)\<close>: \<open>parse_reset\<close>, then the loop.\<close>

definition Reader_iternext :: "string list \<Rightarrow> error + (string list \<times> string list)" where
  "Reader_iternext input_iter =
     read_record \<lparr>state = START_RECORD, fields' = [], field = []\<rparr> input_iter"

subsection \<open>The writer\<close>

record writer =
  rec :: string
  num_fields :: nat

text \<open>
  \<open>join_append\<close> appends one field to the record under construction. Under
  \<open>QUOTE_MINIMAL\<close> a field is quoted when it holds the delimiter, the quote character
  or a character of the line terminator; a quote character inside is doubled.
\<close>

definition join_append_data :: "writer \<Rightarrow> string \<Rightarrow> bool \<Rightarrow> string" where
  "join_append_data self field_data quoted =
     rec self
     @ (if 0 < num_fields self then [delimiter] else [])
     @ (if quoted then [quotechar] else [])
     @ concat (map (\<lambda>c. if c = quotechar then [quotechar, c] else [c]) field_data)
     @ (if quoted then [quotechar] else [])"

definition join_append :: "writer \<Rightarrow> string \<Rightarrow> bool \<Rightarrow> writer" where
  "join_append self field_data quoted =
     \<lparr>rec = join_append_data self field_data
              (quoted \<or> list_ex (\<lambda>c. c = delimiter \<or> c = quotechar \<or> c \<in> set lineterminator)
                          field_data),
      num_fields = num_fields self + 1\<rparr>"

text \<open>
  \<open>writer.writerow(row)\<close>: every field in turn, unquoted unless it must be; a record
  that is a single empty field is written as \<open>""\<close>; then the line terminator.
\<close>

definition writerow :: "string list \<Rightarrow> string" where
  "writerow row =
     (let self = fold (\<lambda>field_data self. join_append self field_data False) row
                   \<lparr>rec = [], num_fields = 0\<rparr>;
          self' = (if 0 < num_fields self \<and> rec self = []
                   then join_append (self\<lparr>num_fields := num_fields self - 1\<rparr>) [] True
                   else self)
      in rec self' @ lineterminator)"

text \<open>\<open>writer.writerows(rows)\<close> into a fresh \<open>StringIO\<close>, then \<open>getvalue()\<close>.\<close>

definition writerows :: "string list list \<Rightarrow> string" where
  "writerows rows = concat (map writerow rows)"

section \<open>The report (lines 51--57)\<close>

text \<open>\<open>str(count)\<close> inside the f-string: the decimal digits of a Python int.\<close>

fun str_nat :: "nat \<Rightarrow> string" where
  "str_nat n =
     (if n < 10 then [''0123456789'' ! n]
      else str_nat (n div 10) @ [''0123456789'' ! (n mod 10)])"

definition str_int :: "int \<Rightarrow> string" where
  "str_int i = (if i < 0 then CHR ''-'' # str_nat (nat (- i)) else str_nat (nat i))"

text \<open>\<open>key.replace('_', ' ')\<close> replaces every underscore.\<close>

definition replace_underscores :: "string \<Rightarrow> string" where
  "replace_underscores key = map (\<lambda>c. if c = CHR ''_'' then CHR '' '' else c) key"

text \<open>
  \<open>str.title()\<close> can leave the range U+0000..U+00FF: the title case of U+00FF is
  U+0178, that of U+00B5 is U+039C. So the report, the one text built with it, is a
  list of code points, and \<open>code_points\<close> is the inclusion of the strings of the model.
\<close>

type_synonym code_point = nat

definition code_points :: "string \<Rightarrow> code_point list" where
  "code_points s = map of_char s"

text \<open>
  \<open>str.title()\<close> is CPython's \<open>do_title\<close>: it walks the string; a character that
  follows a cased one is replaced by its lower case (\<open>lower_ucs4\<close>, which is
  \<open>_PyUnicode_ToLowerFull\<close> but for U+03A3), any other by its title case
  (\<open>_PyUnicode_ToTitleFull\<close>), a mapping that may give more than one code point.
  The three functions below are the Unicode tables for the code points below U+0100:
  the cased ones are the letters A..Z, a..z, U+00C0..U+00FF without the signs U+00D7 and
  U+00F7, and U+00AA, U+00B5, U+00BA; upper and lower case are 32 apart, except that
  the title case of U+00B5 is U+039C, of U+00DF the two letters \<open>Ss\<close>, of U+00FF U+0178,
  and that U+00AA and U+00BA have no other case.
\<close>

definition IsCased :: "char \<Rightarrow> bool" where
  "IsCased c =
     (let n = of_char c :: nat
      in 65 \<le> n \<and> n \<le> 90 \<or> 97 \<le> n \<and> n \<le> 122 \<or> n = 170 \<or> n = 181 \<or> n = 186 \<or>
         192 \<le> n \<and> n \<le> 214 \<or> 216 \<le> n \<and> n \<le> 246 \<or> 248 \<le> n)"

definition ToTitleFull :: "char \<Rightarrow> code_point list" where
  "ToTitleFull c =
     (let n = of_char c :: nat
      in if 97 \<le> n \<and> n \<le> 122 \<or> 224 \<le> n \<and> n \<le> 246 \<or> 248 \<le> n \<and> n \<le> 254 then [n - 32]
         else if n = 181 then [924]
         else if n = 223 then [83, 115]
         else if n = 255 then [376]
         else [n])"

definition ToLowerFull :: "char \<Rightarrow> code_point list" where
  "ToLowerFull c =
     (let n = of_char c :: nat
      in if 65 \<le> n \<and> n \<le> 90 \<or> 192 \<le> n \<and> n \<le> 214 \<or> 216 \<le> n \<and> n \<le> 222 then [n + 32]
         else [n])"

fun do_title :: "bool \<Rightarrow> string \<Rightarrow> code_point list" where
  "do_title previous_is_cased [] = []"
| "do_title previous_is_cased (c # cs) =
     (if previous_is_cased then ToLowerFull c else ToTitleFull c) @ do_title (IsCased c) cs"

definition title :: "string \<Rightarrow> code_point list" where
  "title s = do_title False s"

text \<open>Lines 51--57. The literals and \<open>str(count)\<close> are ASCII.\<close>

definition report_content :: "counts \<Rightarrow> code_point list" where
  "report_content total_pii_found =
     code_points (''Summary Report'' @ [LF]) @ code_points (''--------------'' @ [LF])
     @ (if total_pii_found \<noteq> [] then
          concat (map (\<lambda>(key, count).
                    code_points ''Total '' @ title (replace_underscores key)
                      @ code_points ('' found: '' @ str_int count @ [LF]))
                  total_pii_found)
        else code_points (''No PII found in the provided data.'' @ [LF]))"

section \<open>The row loop and \<open>deidentify_data\<close>\<close>

lemma read_record_consumes:
  "read_record self input_iter = Inr (row, rest) \<Longrightarrow> length rest \<le> length input_iter"
  by (induction input_iter arbitrary: self)
     (auto split: if_splits sum.splits intro: le_SucI)

lemma Reader_iternext_consumes:
  "Reader_iternext input_iter = Inr (row, rest) \<Longrightarrow> length rest < length input_iter"
  by (cases input_iter)
     (auto simp: Reader_iternext_def split: if_splits sum.splits
           dest: read_record_consumes intro: le_imp_less_Suc)

text \<open>
  \<open>for row in reader\<close>: the reader is lazy, so a row is parsed only when the loop asks
  for it; \<open>StopIteration\<close> ends the loop, any other exception of the reader leaves it.
  The loop state is \<open>deidentified_lines\<close> and \<open>total_pii_found\<close>.
\<close>

function row_loop ::
  "analyzer \<Rightarrow> anonymizer \<Rightarrow> string list \<Rightarrow> string list list \<times> counts
     \<Rightarrow> error + (string list list \<times> counts)" where
  "row_loop an ano input_iter (deidentified_lines, total_pii_found) =
     (case Reader_iternext input_iter of
        Inl e \<Rightarrow>
          if e = StopIteration then Inr (deidentified_lines, total_pii_found) else Inl e
      | Inr (row, input_iter') \<Rightarrow>
          (case process_row an ano row total_pii_found of
             Inl e \<Rightarrow> Inl e
           | Inr (deidentified_row, total_pii_found') \<Rightarrow>
               row_loop an ano input_iter'
                 (deidentified_lines @ [deidentified_row], total_pii_found')))"
  by pat_completeness auto
termination
  by (relation "measure (\<lambda>(an, ano, input_iter, st). length input_iter)")
     (auto dest: Reader_iternext_consumes)

declare row_loop.simps [simp del]

text \<open>Lines 18--49: the state when the loop is left.\<close>

definition deidentify_rows ::
  "analyzer \<Rightarrow> anonymizer \<Rightarrow> string \<Rightarrow> error + (string list list \<times> counts)" where
  "deidentify_rows an ano input_csv_content =
     (case Reader_iternext (StringIO_lines input_csv_content) of
        Inl e \<Rightarrow> Inl e
      | Inr (header, input_iter) \<Rightarrow> row_loop an ano input_iter ([header], []))"

text \<open>The whole function: the pair \<open>(deidentified_csv, report_content)\<close>.\<close>

definition deidentify_data ::
  "analyzer \<Rightarrow> anonymizer \<Rightarrow> string \<Rightarrow> error + (string \<times> code_point list)" where
  "deidentify_data an ano input_csv_content =
     (case deidentify_rows an ano input_csv_content of
        Inl e \<Rightarrow> Inl e
      | Inr (deidentified_lines, total_pii_found) \<Rightarrow>
          Inr (writerows deidentified_lines, report_content total_pii_found))"

section \<open>Vocabulary for the properties\<close>

text \<open>
  The definitions of this section are not part of the program: they name what the
  properties below speak about. \<open>read_all\<close> is \<open>list(reader)\<close> made total: the rows
  the reader yields, and the exception that ends the iteration (\<open>StopIteration\<close> when
  the input was read to its end). \<open>input_rows\<close> is the input grid, header first.
\<close>

function read_all :: "string list \<Rightarrow> string list list \<times> error" where
  "read_all input_iter =
     (case Reader_iternext input_iter of
        Inl e \<Rightarrow> ([], e)
      | Inr (row, input_iter') \<Rightarrow>
          (case read_all input_iter' of (rows, e) \<Rightarrow> (row # rows, e)))"
  by pat_completeness auto
termination
  by (relation "measure length") (auto dest: Reader_iternext_consumes)

declare read_all.simps [simp del]

definition input_rows :: "string \<Rightarrow> string list list" where
  "input_rows input_csv_content = fst (read_all (StringIO_lines input_csv_content))"

definition input_end :: "string \<Rightarrow> error" where
  "input_end input_csv_content = snd (read_all (StringIO_lines input_csv_content))"

text \<open>
  What one cell becomes (\<open>mask_cell\<close>) and which entities the analyzer reported for it
  (\<open>cell_results\<close>; none for a cell that is skipped), then the same over a row and
  over the data rows, the first exception in reading order winning.
\<close>

definition cell_results :: "analyzer \<Rightarrow> string \<Rightarrow> recognizer_result list" where
  "cell_results an cell =
     (if strip cell = '''' then []
      else (case an cell ''en'' of Inl e \<Rightarrow> [] | Inr results \<Rightarrow> results))"

definition mask_cell :: "analyzer \<Rightarrow> anonymizer \<Rightarrow> string \<Rightarrow> error + string" where
  "mask_cell an ano cell =
     (if strip cell = '''' then Inr cell
      else (case an cell ''en'' of
              Inl e \<Rightarrow> Inl e
            | Inr results \<Rightarrow> if results \<noteq> [] then ano cell results operators else Inr cell))"

fun mask_cells :: "analyzer \<Rightarrow> anonymizer \<Rightarrow> string list \<Rightarrow> error + string list" where
  "mask_cells an ano [] = Inr []"
| "mask_cells an ano (cell # cells) =
     (case mask_cell an ano cell of
        Inl e \<Rightarrow> Inl e
      | Inr masked \<Rightarrow>
          (case mask_cells an ano cells of Inl e \<Rightarrow> Inl e | Inr rest \<Rightarrow> Inr (masked # rest)))"

fun mask_rows :: "analyzer \<Rightarrow> anonymizer \<Rightarrow> string list list \<Rightarrow> error + string list list" where
  "mask_rows an ano [] = Inr []"
| "mask_rows an ano (row # rows) =
     (case mask_cells an ano row of
        Inl e \<Rightarrow> Inl e
      | Inr masked \<Rightarrow>
          (case mask_rows an ano rows of Inl e \<Rightarrow> Inl e | Inr rest \<Rightarrow> Inr (masked # rest)))"

definition grid_results :: "analyzer \<Rightarrow> string list list \<Rightarrow> recognizer_result list" where
  "grid_results an rows = concat (map (cell_results an) (concat rows))"

text \<open>
  The elements of a list in the order of their first occurrence: the order in which a
  dict, filled by going through the list, holds them as keys.
\<close>

fun first_occurrences :: "'a list \<Rightarrow> 'a list" where
  "first_occurrences [] = []"
| "first_occurrences (x # xs) = x # filter (\<lambda>y. y \<noteq> x) (first_occurrences xs)"

subsection \<open>Stand-ins for the engines\<close>

text \<open>
  Small engines that honour the interface, for evaluating the pipeline on concrete
  inputs. \<open>stub_analyzer\<close> reports a text that holds \<open>@\<close> as one \<open>EMAIL_ADDRESS\<close>
  spanning it, and raises on a text that holds \<open>!\<close>. \<open>deny_list_analyzer\<close> reports a
  text that is on its list as one \<open>CUSTOM\<close> entity. \<open>replace_anonymizer\<close> replaces
  every reported span by the \<open>new_value\<close> of the \<open>DEFAULT\<close> operator, last span first.
\<close>

definition stub_analyzer :: analyzer where
  "stub_analyzer text language =
     (if CHR ''!'' \<in> set text then Inl (AnalyzerError ''unsupported input'')
      else if CHR ''@'' \<in> set text
      then Inr [\<lparr>entity_type = ''EMAIL_ADDRESS'', start = 0, stop = length text\<rparr>]
      else Inr [])"

definition deny_list_analyzer :: "string list \<Rightarrow> analyzer" where
  "deny_list_analyzer deny_list text language =
     (if text \<in> set deny_list
      then Inr [\<lparr>entity_type = ''CUSTOM'', start = 0, stop = length text\<rparr>]
      else Inr [])"

definition replace_anonymizer :: anonymizer where
  "replace_anonymizer text analyzer_results ops =
     (case map_of ops ''DEFAULT'' of
        None \<Rightarrow> Inl (AnonymizerError ''no DEFAULT operator'')
      | Some config \<Rightarrow>
          (case map_of (params config) ''new_value'' of
             None \<Rightarrow> Inl (AnonymizerError ''no new_value'')
           | Some new_value \<Rightarrow>
               Inr (foldr (\<lambda>r t. take (start r) t @ new_value @ drop (stop r) t)
                      analyzer_results text)))"

definition failing_anonymizer :: anonymizer where
  "failing_anonymizer text analyzer_results ops = Inl (AnonymizerError ''engine failure'')"

text \<open>\<open>strict_analyzer\<close> is \<open>stub_analyzer\<close>, except that it raises on a blank text.\<close>

definition strict_analyzer :: analyzer where
  "strict_analyzer text language =
     (if strip text = '''' then Inl (AnalyzerError ''blank text'')
      else stub_analyzer text language)"

text \<open>
  \<open>contact_analyzer\<close> reports a text that holds a digit as one \<open>PHONE_NUMBER\<close> and a
  text that holds \<open>@\<close> as one \<open>EMAIL_ADDRESS\<close>, in this order when it holds both.
\<close>

definition contact_analyzer :: analyzer where
  "contact_analyzer text language =
     Inr ((if list_ex (\<lambda>c. c \<in> set ''0123456789'') text
           then [\<lparr>entity_type = ''PHONE_NUMBER'', start = 0, stop = length text\<rparr>] else [])
          @ (if CHR ''@'' \<in> set text
             then [\<lparr>entity_type = ''EMAIL_ADDRESS'', start = 0, stop = length text\<rparr>] else []))"

subsection \<open>The report line as claim C7 words it\<close>

text \<open>
  Claim C7 describes a line of the report as the label, underscores replaced by spaces and
  each word capitalised, followed by \<open>: <count> found\<close>. This definition follows those
  words, to be compared with what \<open>report_content\<close> writes.
\<close>

definition claimed_report_line :: "string \<Rightarrow> int \<Rightarrow> code_point list" where
  "claimed_report_line key count =
     title (replace_underscores key) @ code_points ('': '' @ str_int count @ '' found'')"

subsection \<open>What the writer writes for a field and for the fields of a row\<close>

text \<open>
  \<open>written_field\<close> is a field as \<open>join_append\<close> writes it when quoting is not forced,
  \<open>joined_fields\<close> the fields of a row with the delimiter between them. Lemma
  \<open>writerow_eq\<close> below proves that \<open>writerow\<close> writes exactly this, then CR LF.
\<close>

definition special :: "char \<Rightarrow> bool" where
  "special c = (c = delimiter \<or> c = quotechar \<or> c = CR \<or> c = LF)"

definition escape_quotes :: "string \<Rightarrow> string" where
  "escape_quotes field_data =
     concat (map (\<lambda>c. if c = quotechar then [quotechar, c] else [c]) field_data)"

definition written_field :: "string \<Rightarrow> string" where
  "written_field field_data =
     (if list_ex special field_data
      then [quotechar] @ escape_quotes field_data @ [quotechar]
      else field_data)"

fun joined_fields :: "string list \<Rightarrow> string" where
  "joined_fields [] = []"
| "joined_fields [f] = written_field f"
| "joined_fields (f # g # fs) = written_field f @ delimiter # joined_fields (g # fs)"

text \<open>A row as the writer writes it, without the line terminator.\<close>

definition written_row :: "string list \<Rightarrow> string" where
  "written_row row = (if row = [''''] then [quotechar, quotechar] else joined_fields row)"

subsection \<open>The reader's field limit as an invariant\<close>

text \<open>The field under construction and the fields saved so far are within the limit.\<close>

definition within_limit :: "reader \<Rightarrow> bool" where
  "within_limit self =
     (length (field self) \<le> field_size_limit \<and>
      list_all (\<lambda>f. length f \<le> field_size_limit) (fields' self))"

section \<open>The dictionary and the cell loop\<close>

lemma dict_get_set:
  "dict_get (dict_set m k v) k' d = (if k' = k then v else dict_get m k' d)"
  by (induction m) auto

lemma map_fst_dict_set:
  "map fst (dict_set m k v) = (if k \<in> fst ` set m then map fst m else map fst m @ [k])"
  by (induction m) force+

lemma keys_dict_set: "fst ` set (dict_set m k v) = insert k (fst ` set m)"
proof -
  have "set (map fst (dict_set m k v)) = insert k (set (map fst m))"
    unfolding map_fst_dict_set by auto
  then show ?thesis by simp
qed

lemma distinct_dict_set:
  "distinct (map fst m) \<Longrightarrow> distinct (map fst (dict_set m k v))"
  unfolding map_fst_dict_set by simp

lemma sum_dict_set:
  "sum_list (map snd (dict_set m k (dict_get m k 0 + 1))) = sum_list (map snd m) + 1"
  by (induction m) auto

lemma update_counts_append:
  "update_counts (xs @ ys) m = update_counts ys (update_counts xs m)"
  by (induction xs arbitrary: m) auto

lemma keys_update_counts:
  "fst ` set (update_counts rs m) = fst ` set m \<union> entity_type ` set rs"
  by (induction rs arbitrary: m) (simp_all add: keys_dict_set)

lemma distinct_update_counts:
  "distinct (map fst m) \<Longrightarrow> distinct (map fst (update_counts rs m))"
  by (induction rs arbitrary: m) (auto simp: distinct_dict_set)

lemma sum_update_counts:
  "sum_list (map snd (update_counts rs m)) = sum_list (map snd m) + int (length rs)"
  by (induction rs arbitrary: m) (auto simp: sum_dict_set)

lemma dict_get_update_counts:
  "dict_get (update_counts rs m) k 0
     = dict_get m k 0 + int (length (filter (\<lambda>r. entity_type r = k) rs))"
  by (induction rs arbitrary: m) (auto simp: dict_get_set)

lemma dict_get_absent: "k \<notin> fst ` set m \<Longrightarrow> dict_get m k d = d"
  by (induction m) auto

lemma dict_get_present:
  "distinct (map fst m) \<Longrightarrow> (k, v) \<in> set m \<Longrightarrow> dict_get m k d = v"
  by (induction m) (auto simp: rev_image_eqI)

lemma enumerate_from_Cons:
  "enumerate_from k (x # xs) = (k, x) # enumerate_from (Suc k) xs"
  by (simp add: enumerate_from_def upt_rec)

lemma enumerate_from_Nil: "enumerate_from k [] = []"
  by (simp add: enumerate_from_def)

lemma cell_loop_spec:
  "length pre = k \<Longrightarrow>
   cell_loop an ano (enumerate_from k cells) (pre @ cells @ post, total_pii_found) =
     (case mask_cells an ano cells of
        Inl e \<Rightarrow> Inl e
      | Inr masked \<Rightarrow>
          Inr (pre @ masked @ post,
               update_counts (concat (map (cell_results an) cells)) total_pii_found))"
proof (induction cells arbitrary: k pre total_pii_found)
  case Nil
  then show ?case by (simp add: enumerate_from_Nil)
next
  case (Cons cell cells)
  have upd: "(pre @ cell # cells @ post)[k := t] = (pre @ [t]) @ cells @ post" for t
    using Cons.prems by (simp add: list_update_append)
  have same: "pre @ cell # cells @ post = (pre @ [cell]) @ cells @ post"
    by simp
  have len: "length (pre @ [t]) = Suc k" for t :: string
    using Cons.prems by simp
  show ?case
  proof (cases "strip cell = ''''")
    case True
    then show ?thesis
      using Cons.IH [OF len, of cell total_pii_found]
      by (simp add: enumerate_from_Cons mask_cell_def cell_results_def split: sum.splits)
  next
    case False
    show ?thesis
    proof (cases "an cell ''en''")
      case (Inl e)
      with False show ?thesis
        by (simp add: enumerate_from_Cons mask_cell_def)
    next
      case (Inr results)
      show ?thesis
      proof (cases "results = []")
        case True
        with False Inr show ?thesis
          using Cons.IH [OF len, of cell total_pii_found]
          by (simp add: enumerate_from_Cons mask_cell_def cell_results_def split: sum.splits)
      next
        case nonempty: False
        show ?thesis
        proof (cases "ano cell results operators")
          case (Inl e)
          with False Inr nonempty show ?thesis
            by (simp add: enumerate_from_Cons mask_cell_def)
        next
          case masked: (Inr t)
          with False Inr nonempty show ?thesis
            using Cons.IH [OF len, of t "update_counts results total_pii_found"]
            by (simp add: enumerate_from_Cons mask_cell_def cell_results_def upd
                  update_counts_append split: sum.splits)
        qed
      qed
    qed
  qed
qed

lemma process_row_spec:
  "process_row an ano row total_pii_found =
     (case mask_cells an ano row of
        Inl e \<Rightarrow> Inl e
      | Inr masked \<Rightarrow>
          Inr (masked, update_counts (concat (map (cell_results an) row)) total_pii_found))"
  using cell_loop_spec [of "[]" 0 an ano row "[]" total_pii_found]
  by (simp add: process_row_def split: sum.splits)

section \<open>The row loop\<close>

lemma grid_results_Nil: "grid_results an [] = []"
  by (simp add: grid_results_def)

lemma grid_results_Cons:
  "grid_results an (row # rows) = concat (map (cell_results an) row) @ grid_results an rows"
  by (simp add: grid_results_def)

lemma row_loop_spec:
  "row_loop an ano input_iter (deidentified_lines, total_pii_found) =
     (case read_all input_iter of
        (rows, e) \<Rightarrow>
          (case mask_rows an ano rows of
             Inl e' \<Rightarrow> Inl e'
           | Inr masked \<Rightarrow>
               if e = StopIteration
               then Inr (deidentified_lines @ masked,
                         update_counts (grid_results an rows) total_pii_found)
               else Inl e))"
proof (induction an ano input_iter "(deidentified_lines, total_pii_found)"
       arbitrary: deidentified_lines total_pii_found rule: row_loop.induct)
  case (1 an ano input_iter deidentified_lines total_pii_found)
  show ?case
  proof (cases "Reader_iternext input_iter")
    case (Inl e)
    then show ?thesis
      by (simp add: read_all.simps [of input_iter] row_loop.simps [of an ano input_iter]
            grid_results_Nil)
  next
    case (Inr p)
    obtain row rest where p: "p = (row, rest)" by (cases p)
    obtain rows e where ra: "read_all rest = (rows, e)" by (cases "read_all rest")
    show ?thesis
    proof (cases "mask_cells an ano row")
      case (Inl e')
      with Inr p ra show ?thesis
        by (simp add: read_all.simps [of input_iter] row_loop.simps [of an ano input_iter]
              process_row_spec)
    next
      case masked: (Inr m)
      have pr: "process_row an ano row total_pii_found =
          Inr (m, update_counts (concat (map (cell_results an) row)) total_pii_found)"
        by (simp add: process_row_spec masked)
      have IH: "row_loop an ano rest
            (deidentified_lines @ [m],
             update_counts (concat (map (cell_results an) row)) total_pii_found) =
          (case mask_rows an ano rows of
             Inl e' \<Rightarrow> Inl e'
           | Inr ms \<Rightarrow>
               if e = StopIteration
               then Inr ((deidentified_lines @ [m]) @ ms,
                         update_counts (grid_results an rows)
                           (update_counts (concat (map (cell_results an) row)) total_pii_found))
               else Inl e)"
        using "1.hyps" [OF Inr p [symmetric] pr refl] ra by simp
      show ?thesis
        using Inr p ra masked pr IH
        by (simp add: read_all.simps [of input_iter] row_loop.simps [of an ano input_iter]
              grid_results_Cons update_counts_append split: sum.splits)
    qed
  qed
qed

lemma deidentify_rows_spec:
  "deidentify_rows an ano input_csv_content =
     (case input_rows input_csv_content of
        [] \<Rightarrow> Inl (input_end input_csv_content)
      | header # rows \<Rightarrow>
          (case mask_rows an ano rows of
             Inl e \<Rightarrow> Inl e
           | Inr masked \<Rightarrow>
               if input_end input_csv_content = StopIteration
               then Inr (header # masked, update_counts (grid_results an rows) [])
               else Inl (input_end input_csv_content)))"
proof (cases "Reader_iternext (StringIO_lines input_csv_content)")
  case (Inl e)
  then show ?thesis
    by (simp add: deidentify_rows_def input_rows_def input_end_def
          read_all.simps [of "StringIO_lines input_csv_content"])
next
  case (Inr p)
  obtain header rest where p: "p = (header, rest)" by (cases p)
  obtain rows e where ra: "read_all rest = (rows, e)" by (cases "read_all rest")
  show ?thesis
    using Inr p ra
    by (simp add: deidentify_rows_def input_rows_def input_end_def row_loop_spec
          read_all.simps [of "StringIO_lines input_csv_content"] split: sum.splits)
qed

section \<open>What a successful run computes\<close>

lemma mask_cells_Inr:
  "mask_cells an ano row = Inr masked \<Longrightarrow>
     length masked = length row \<and>
     (\<forall>i<length row. mask_cell an ano (row ! i) = Inr (masked ! i))"
proof (induction row arbitrary: masked)
  case Nil
  then show ?case by simp
next
  case (Cons cell row)
  from Cons.prems obtain m ms where
    m: "mask_cell an ano cell = Inr m" and ms: "mask_cells an ano row = Inr ms"
    and masked: "masked = m # ms"
    by (auto split: sum.splits)
  from Cons.IH [OF ms] m show ?case
    by (auto simp: masked nth_Cons split: nat.splits)
qed

lemma mask_rows_Inr:
  "mask_rows an ano rows = Inr masked \<Longrightarrow>
     length masked = length rows \<and>
     (\<forall>j<length rows. mask_cells an ano (rows ! j) = Inr (masked ! j))"
proof (induction rows arbitrary: masked)
  case Nil
  then show ?case by simp
next
  case (Cons row rows)
  from Cons.prems obtain m ms where
    m: "mask_cells an ano row = Inr m" and ms: "mask_rows an ano rows = Inr ms"
    and masked: "masked = m # ms"
    by (auto split: sum.splits)
  from Cons.IH [OF ms] m show ?case
    by (auto simp: masked nth_Cons split: nat.splits)
qed

lemma mask_cells_Inl:
  "cell \<in> set row \<Longrightarrow> mask_cell an ano cell = Inl e \<Longrightarrow> \<exists>e'. mask_cells an ano row = Inl e'"
  by (induction row) (auto split: sum.splits)

lemma mask_rows_Inl:
  "row \<in> set rows \<Longrightarrow> mask_cells an ano row = Inl e \<Longrightarrow> \<exists>e'. mask_rows an ano rows = Inl e'"
  by (induction rows) (auto split: sum.splits)

lemma mask_cells_total:
  "\<forall>cell\<in>set row. \<exists>m. mask_cell an ano cell = Inr m \<Longrightarrow> \<exists>ms. mask_cells an ano row = Inr ms"
  by (induction row) (auto split: sum.splits)

lemma mask_rows_total:
  "\<forall>row\<in>set rows. \<exists>m. mask_cells an ano row = Inr m \<Longrightarrow> \<exists>ms. mask_rows an ano rows = Inr ms"
  by (induction rows) (auto split: sum.splits)

lemma deidentify_rows_Inr:
  assumes "deidentify_rows an ano input_csv_content = Inr (deidentified_lines, total_pii_found)"
  shows "\<exists>header rows masked.
           input_rows input_csv_content = header # rows \<and>
           input_end input_csv_content = StopIteration \<and>
           mask_rows an ano rows = Inr masked \<and>
           deidentified_lines = header # masked \<and>
           total_pii_found = update_counts (grid_results an rows) []"
  using assms unfolding deidentify_rows_spec
  by (auto split: list.splits sum.splits if_splits)

lemma deidentify_data_rows:
  "deidentify_rows an ano input_csv_content = Inr (deidentified_lines, total_pii_found) \<Longrightarrow>
   deidentify_data an ano input_csv_content =
     Inr (writerows deidentified_lines, report_content total_pii_found)"
  by (simp add: deidentify_data_def)

lemma deidentify_data_Inl:
  "deidentify_rows an ano input_csv_content = Inl e \<Longrightarrow>
   deidentify_data an ano input_csv_content = Inl e"
  by (simp add: deidentify_data_def)

lemma masked_cell:
  assumes run: "deidentify_rows an ano input_csv_content = Inr (deidentified_lines, total_pii_found)"
    and j: "0 < j" "j < length (input_rows input_csv_content)"
    and i: "i < length (input_rows input_csv_content ! j)"
  shows "mask_cell an ano (input_rows input_csv_content ! j ! i) = Inr (deidentified_lines ! j ! i)"
proof -
  from deidentify_rows_Inr [OF run] obtain header rows masked where
    rows: "input_rows input_csv_content = header # rows"
    and masked: "mask_rows an ano rows = Inr masked"
    and out: "deidentified_lines = header # masked"
    by blast
  from j obtain j' where j': "j = Suc j'" by (cases j) auto
  from j rows have lt: "j' < length rows" by (simp add: j')
  from mask_rows_Inr [OF masked] lt
  have "mask_cells an ano (rows ! j') = Inr (masked ! j')" by blast
  from mask_cells_Inr [OF this] i rows
  have "mask_cell an ano (rows ! j' ! i) = Inr (masked ! j' ! i)" by (simp add: j')
  then show ?thesis by (simp add: rows out j')
qed

lemma mask_cell_cong:
  assumes "\<forall>text. strip text \<noteq> '''' \<longrightarrow> an' text ''en'' = an text ''en''"
    and "\<forall>text results. strip text \<noteq> '''' \<longrightarrow>
           ano' text results operators = ano text results operators"
  shows "mask_cell an' ano' = mask_cell an ano"
proof
  fix cell
  show "mask_cell an' ano' cell = mask_cell an ano cell"
  proof (cases "strip cell = ''''")
    case True
    then show ?thesis by (simp add: mask_cell_def)
  next
    case False
    with assms have "an' cell ''en'' = an cell ''en''"
      and "\<And>results. ano' cell results operators = ano cell results operators"
      by blast+
    with False show ?thesis by (simp add: mask_cell_def split: sum.splits)
  qed
qed

lemma cell_results_cong:
  assumes "\<forall>text. strip text \<noteq> '''' \<longrightarrow> an' text ''en'' = an text ''en''"
  shows "cell_results an' = cell_results an"
proof
  fix cell
  from assms show "cell_results an' cell = cell_results an cell"
    by (cases "strip cell = ''''") (simp_all add: cell_results_def)
qed

lemma mask_cells_cong:
  assumes "mask_cell an' ano' = mask_cell an ano"
  shows "mask_cells an' ano' row = mask_cells an ano row"
proof (induction row)
  case Nil
  show ?case by simp
next
  case (Cons cell row)
  show ?case
    unfolding mask_cells.simps assms Cons.IH by (rule refl)
qed

lemma mask_rows_cong:
  assumes "mask_cell an' ano' = mask_cell an ano"
  shows "mask_rows an' ano' rows = mask_rows an ano rows"
proof (induction rows)
  case Nil
  show ?case by simp
next
  case (Cons row rows)
  show ?case
    unfolding mask_rows.simps mask_cells_cong [OF assms] Cons.IH by (rule refl)
qed

lemma deidentify_rows_cong:
  assumes "mask_cell an' ano' = mask_cell an ano" and "cell_results an' = cell_results an"
  shows "deidentify_rows an' ano' input_csv_content = deidentify_rows an ano input_csv_content"
  unfolding deidentify_rows_spec mask_rows_cong [OF assms(1)] grid_results_def assms(2)
  by (rule refl)

lemma mask_cells_Inl_source:
  "mask_cells an ano row = Inl e \<Longrightarrow> \<exists>cell\<in>set row. mask_cell an ano cell = Inl e"
  by (induction row) (auto split: sum.splits)

lemma mask_rows_Inl_source:
  "mask_rows an ano rows = Inl e \<Longrightarrow>
     \<exists>row\<in>set rows. \<exists>cell\<in>set row. mask_cell an ano cell = Inl e"
  by (induction rows) (auto split: sum.splits dest: mask_cells_Inl_source)

lemma mask_cell_Inl:
  "mask_cell an ano cell = Inl e \<Longrightarrow>
     strip cell \<noteq> '''' \<and>
     (an cell ''en'' = Inl e \<or>
      (\<exists>results. an cell ''en'' = Inr results \<and> results \<noteq> [] \<and>
         ano cell results operators = Inl e))"
  by (auto simp: mask_cell_def split: if_splits sum.splits)

section \<open>Counts\<close>

lemma positive_dict_set:
  "\<forall>(k, c)\<in>set m. 0 < c \<Longrightarrow> 0 < v \<Longrightarrow> \<forall>(k, c)\<in>set (dict_set m k' v). 0 < c"
  by (induction m) (auto split: if_splits)

lemma dict_get_nonneg:
  "\<forall>(k, c)\<in>set m. 0 < c \<Longrightarrow> 0 \<le> dict_get m k 0"
  by (induction m) auto

lemma positive_update_counts:
  "\<forall>(k, c)\<in>set m. 0 < c \<Longrightarrow> \<forall>(k, c)\<in>set (update_counts rs m). 0 < c"
proof (induction rs arbitrary: m)
  case Nil
  then show ?case by simp
next
  case (Cons r rs)
  have "0 < dict_get m (entity_type r) 0 + 1"
    using dict_get_nonneg [OF Cons.prems, of "entity_type r"] by simp
  from Cons.IH [OF positive_dict_set [OF Cons.prems this]] show ?case by simp
qed

lemma update_counts_mono:
  "dict_get m k 0 \<le> dict_get (update_counts rs m) k 0"
  by (simp add: dict_get_update_counts)

lemma cell_loop_mono:
  "cell_loop an ano cells (deidentified_row, total_pii_found)
     = Inr (deidentified_row', total_pii_found') \<Longrightarrow>
   dict_get total_pii_found k 0 \<le> dict_get total_pii_found' k 0"
proof (induction cells arbitrary: deidentified_row total_pii_found)
  case Nil
  then show ?case by simp
next
  case (Cons p cells)
  obtain i cell where p: "p = (i, cell)" by (cases p)
  show ?case
  proof (cases "strip cell = ''''")
    case True
    with Cons.prems Cons.IH show ?thesis by (simp add: p)
  next
    case False
    with Cons.prems obtain results where an: "an cell ''en'' = Inr results"
      by (auto simp: p split: sum.splits)
    show ?thesis
    proof (cases "results = []")
      case True
      with False an Cons.prems Cons.IH show ?thesis by (simp add: p)
    next
      case nonempty: False
      with False an Cons.prems obtain masked where
        rest: "cell_loop an ano cells
                 (deidentified_row[i := masked], update_counts results total_pii_found)
               = Inr (deidentified_row', total_pii_found')"
        by (auto simp: p split: sum.splits)
      have "dict_get total_pii_found k 0 \<le> dict_get (update_counts results total_pii_found) k 0"
        by (rule update_counts_mono)
      also have "\<dots> \<le> dict_get total_pii_found' k 0"
        by (rule Cons.IH [OF rest])
      finally show ?thesis .
    qed
  qed
qed

lemma process_row_mono:
  "process_row an ano row total_pii_found = Inr (deidentified_row, total_pii_found') \<Longrightarrow>
   dict_get total_pii_found k 0 \<le> dict_get total_pii_found' k 0"
  unfolding process_row_def by (rule cell_loop_mono)

lemma row_loop_mono:
  "row_loop an ano input_iter (deidentified_lines, total_pii_found)
     = Inr (deidentified_lines', total_pii_found') \<Longrightarrow>
   dict_get total_pii_found k 0 \<le> dict_get total_pii_found' k 0"
  by (auto simp: row_loop_spec dict_get_update_counts split: prod.splits sum.splits if_splits)

lemma entity_in_grid_results:
  "r \<in> set (grid_results an rows) \<longleftrightarrow>
     (\<exists>row\<in>set rows. \<exists>cell\<in>set row. r \<in> set (cell_results an cell))"
  by (auto simp: grid_results_def)

lemma cell_results_iff:
  "r \<in> set (cell_results an cell) \<longleftrightarrow>
     strip cell \<noteq> '''' \<and> (\<exists>results. an cell ''en'' = Inr results \<and> r \<in> set results)"
  by (cases "an cell ''en''") (auto simp: cell_results_def)

lemma cell_loop_append:
  "cell_loop an ano (xs @ ys) st =
     (case cell_loop an ano xs st of Inl e \<Rightarrow> Inl e | Inr st' \<Rightarrow> cell_loop an ano ys st')"
proof (induction xs arbitrary: st)
  case Nil
  show ?case by simp
next
  case (Cons p xs)
  obtain i cell where p: "p = (i, cell)" by (cases p)
  obtain deidentified_row total_pii_found where st: "st = (deidentified_row, total_pii_found)"
    by (cases st)
  show ?case
    by (simp add: p st Cons.IH split: sum.splits)
qed

lemma length_concat_map_int:
  "int (length (concat (map f xs))) = (\<Sum>x\<leftarrow>xs. int (length (f x)))"
  by (induction xs) simp_all

lemma sum_list_concat_map:
  "(\<Sum>x\<leftarrow>concat xss. (g x :: int)) = (\<Sum>xs\<leftarrow>xss. \<Sum>x\<leftarrow>xs. g x)"
  by (induction xss) simp_all

lemma length_grid_results:
  "int (length (grid_results an rows))
     = (\<Sum>row\<leftarrow>rows. \<Sum>cell\<leftarrow>row. int (length (cell_results an cell)))"
  unfolding grid_results_def length_concat_map_int sum_list_concat_map ..

lemma masked_row:
  assumes run: "deidentify_rows an ano input_csv_content = Inr (deidentified_lines, total_pii_found)"
    and j: "0 < j" "j < length (input_rows input_csv_content)"
  shows "mask_cells an ano (input_rows input_csv_content ! j) = Inr (deidentified_lines ! j)"
proof -
  from deidentify_rows_Inr [OF run] obtain header rows masked where
    rows: "input_rows input_csv_content = header # rows"
    and masked: "mask_rows an ano rows = Inr masked"
    and out: "deidentified_lines = header # masked"
    by blast
  from j obtain j' where j': "j = Suc j'" by (cases j) auto
  from j rows have lt: "j' < length rows" by (simp add: j')
  from mask_rows_Inr [OF masked] lt have "mask_cells an ano (rows ! j') = Inr (masked ! j')"
    by simp
  then show ?thesis by (simp add: rows out j')
qed

section \<open>The report\<close>

lemma report_content_lines:
  "report_content total_pii_found =
     concat (map (\<lambda>line. line @ [of_char LF])
       ([code_points ''Summary Report'', code_points ''--------------'']
        @ (if total_pii_found = [] then [code_points ''No PII found in the provided data.'']
           else map (\<lambda>(key, count).
                       code_points ''Total '' @ title (replace_underscores key)
                         @ code_points ('' found: '' @ str_int count))
                  total_pii_found)))"
proof -
  have "concat (map (\<lambda>(key, count). code_points ''Total '' @ title (replace_underscores key)
                        @ code_points ('' found: '' @ str_int count @ [LF])) m)
        = concat (map (\<lambda>line. line @ [of_char LF])
            (map (\<lambda>(key, count). code_points ''Total '' @ title (replace_underscores key)
                        @ code_points ('' found: '' @ str_int count)) m))" for m :: counts
    by (induction m) (auto simp: code_points_def)
  then show ?thesis
    by (simp add: report_content_def code_points_def)
qed

lemma keys_order_update_counts:
  "map fst (update_counts rs m) =
     map fst m @ filter (\<lambda>k. k \<notin> fst ` set m) (first_occurrences (map entity_type rs))"
proof (induction rs arbitrary: m)
  case Nil
  show ?case by simp
next
  case (Cons r rs)
  let ?k = "entity_type r"
  let ?m = "dict_set m ?k (dict_get m ?k 0 + 1)"
  have keys: "fst ` set ?m = insert ?k (fst ` set m)"
    by (rule keys_dict_set)
  show ?case
  proof (cases "?k \<in> fst ` set m")
    case True
    then have "map fst ?m = map fst m" and "fst ` set ?m = fst ` set m"
      by (auto simp: map_fst_dict_set keys)
    moreover from True have
      "filter (\<lambda>k. k \<notin> fst ` set m) (filter (\<lambda>y. y \<noteq> ?k) xs) = filter (\<lambda>k. k \<notin> fst ` set m) xs"
      for xs
      by (induction xs) auto
    ultimately show ?thesis
      using True by (simp add: Cons.IH)
  next
    case False
    then have "map fst ?m = map fst m @ [?k]"
      by (simp add: map_fst_dict_set)
    moreover have
      "filter (\<lambda>k. k \<notin> insert ?k (fst ` set m)) xs
         = filter (\<lambda>k. k \<notin> fst ` set m) (filter (\<lambda>y. y \<noteq> ?k) xs)" for xs
      by (induction xs) auto
    ultimately show ?thesis
      using False by (simp add: Cons.IH keys)
  qed
qed

lemma keys_in_first_occurrence_order:
  "map fst (update_counts rs []) = first_occurrences (map entity_type rs)"
  by (simp add: keys_order_update_counts)

lemma of_char_LF: "(of_char c = (10::nat)) = (c = LF)"
proof -
  have "(of_char c :: nat) = of_char LF \<longleftrightarrow> c = LF"
    by (rule of_char_eq_iff)
  then show ?thesis by (simp add: LF_def)
qed

lemma LF_ToTitleFull:
  "filter (\<lambda>n. n = 10) (ToTitleFull c) = (if c = LF then [10] else [])"
  by (auto simp: ToTitleFull_def Let_def of_char_LF [symmetric])

lemma LF_ToLowerFull:
  "filter (\<lambda>n. n = 10) (ToLowerFull c) = (if c = LF then [10] else [])"
  by (auto simp: ToLowerFull_def Let_def of_char_LF [symmetric])

lemma LF_do_title:
  "length (filter (\<lambda>n. n = 10) (do_title b s)) = length (filter (\<lambda>c. c = LF) s)"
  by (induction s arbitrary: b) (simp_all add: LF_ToTitleFull LF_ToLowerFull)

lemma LF_code_points:
  "length (filter (\<lambda>n. n = 10) (code_points s)) = length (filter (\<lambda>c. c = LF) s)"
  by (induction s) (simp_all add: code_points_def of_char_LF)

lemma digit_not_LF: "n < 10 \<Longrightarrow> ''0123456789'' ! n \<noteq> LF"
proof -
  assume "n < 10"
  then consider "n = 0" | "n = 1" | "n = 2" | "n = 3" | "n = 4" | "n = 5" | "n = 6"
    | "n = 7" | "n = 8" | "n = 9"
    by atomize_elim arith
  then show ?thesis
    by cases (simp_all add: LF_def)
qed

lemma LF_str_nat: "filter (\<lambda>c. c = LF) (str_nat n) = []"
proof (induction n rule: str_nat.induct)
  case (1 n)
  show ?case
  proof (cases "n < 10")
    case True
    have "str_nat n = [''0123456789'' ! n]"
      using True by (subst str_nat.simps) (simp del: str_nat.simps)
    with digit_not_LF [OF True] show ?thesis
      by (simp del: str_nat.simps)
  next
    case False
    have eq: "str_nat n = str_nat (n div 10) @ [''0123456789'' ! (n mod 10)]"
      using False by (subst str_nat.simps) (simp del: str_nat.simps)
    have "n mod 10 < 10" by simp
    from digit_not_LF [OF this] "1.IH" [OF False] show ?thesis
      unfolding eq by (simp del: str_nat.simps)
  qed
qed

lemma LF_str_int: "filter (\<lambda>c. c = LF) (str_int i) = []"
  by (simp add: str_int_def LF_str_nat del: str_nat.simps) (simp add: LF_def)

lemma code_points_append: "code_points (a @ b) = code_points a @ code_points b"
  by (simp add: code_points_def)

lemma LF_replace_underscores:
  "length (filter (\<lambda>c. c = LF) (replace_underscores key)) = length (filter (\<lambda>c. c = LF) key)"
  unfolding replace_underscores_def
  by (induction key) (simp_all add: LF_def)

lemma LF_title:
  "length (filter (\<lambda>n. n = 10) (title s)) = length (filter (\<lambda>c. c = LF) s)"
  by (simp add: title_def LF_do_title)

lemma LF_literals:
  "filter (\<lambda>n. n = 10) (code_points ''Total '') = []"
  "filter (\<lambda>n. n = 10) (code_points '' found: '') = []"
  "filter (\<lambda>n. n = 10) (code_points ''Summary Report'') = []"
  "filter (\<lambda>n. n = 10) (code_points ''--------------'') = []"
  "filter (\<lambda>n. n = 10) (code_points ''No PII found in the provided data.'') = []"
  "code_points [LF] = [10]"
  by (simp_all add: code_points_def LF_def)

lemma LF_entry:
  "length (filter (\<lambda>n. n = 10)
     (code_points ''Total '' @ title (replace_underscores key)
        @ code_points ('' found: '' @ str_int count @ [LF])))
   = 1 + length (filter (\<lambda>c. c = LF) key)"
proof -
  have "length (filter (\<lambda>n. n = 10) (code_points (str_int count))) = 0"
    unfolding LF_code_points LF_str_int by simp
  then show ?thesis
    unfolding code_points_append filter_append length_append LF_literals LF_title
      LF_replace_underscores
    by simp
qed

lemma LF_entries:
  "length (filter (\<lambda>n. n = 10)
        (concat (map (\<lambda>(key, count).
                    code_points ''Total '' @ title (replace_underscores key)
                      @ code_points ('' found: '' @ str_int count @ [LF])) m)))
      = length m + sum_list (map (\<lambda>(key, count). length (filter (\<lambda>c. c = LF) key)) m)"
proof (induction m)
  case Nil
  show ?case by simp
next
  case (Cons p m)
  obtain key count where p: "p = (key, count)" by (cases p)
  have "length (filter (\<lambda>n. n = 10)
        (concat (map (\<lambda>(key, count).
                    code_points ''Total '' @ title (replace_underscores key)
                      @ code_points ('' found: '' @ str_int count @ [LF])) (p # m))))
     = length (filter (\<lambda>n. n = 10)
         (code_points ''Total '' @ title (replace_underscores key)
            @ code_points ('' found: '' @ str_int count @ [LF])))
       + length (filter (\<lambda>n. n = 10)
        (concat (map (\<lambda>(key, count).
                    code_points ''Total '' @ title (replace_underscores key)
                      @ code_points ('' found: '' @ str_int count @ [LF])) m)))"
    unfolding p by (simp only: list.map concat.simps filter_append length_append prod.case)
  then show ?case
    unfolding LF_entry Cons.IH by (simp add: p)
qed

lemma LF_report_content:
  "length (filter (\<lambda>n. n = of_char LF) (report_content total_pii_found)) =
     2 + (if total_pii_found = [] then 1
          else length total_pii_found
               + sum_list (map (\<lambda>(key, count). length (filter (\<lambda>c. c = LF) key))
                            total_pii_found))"
proof -
  have lf: "of_char LF = (10::nat)"
    by (simp add: LF_def)
  have head: "length (filter (\<lambda>n. n = 10) (code_points (''Summary Report'' @ [LF]))) = 1"
    "length (filter (\<lambda>n. n = 10) (code_points (''--------------'' @ [LF]))) = 1"
    "length (filter (\<lambda>n. n = 10)
       (code_points (''No PII found in the provided data.'' @ [LF]))) = 1"
    unfolding code_points_append filter_append LF_literals by simp_all
  show ?thesis
  proof (cases "total_pii_found = []")
    case True
    have "report_content total_pii_found =
        code_points (''Summary Report'' @ [LF]) @ code_points (''--------------'' @ [LF])
        @ code_points (''No PII found in the provided data.'' @ [LF])"
      by (simp add: report_content_def True)
    then show ?thesis
      unfolding lf using True
      by (simp only: filter_append length_append head) simp
  next
    case False
    have "report_content total_pii_found =
        code_points (''Summary Report'' @ [LF]) @ code_points (''--------------'' @ [LF])
        @ concat (map (\<lambda>(key, count).
                    code_points ''Total '' @ title (replace_underscores key)
                      @ code_points ('' found: '' @ str_int count @ [LF]))
                  total_pii_found)"
      by (simp add: report_content_def False)
    then show ?thesis
      unfolding lf using False
      by (simp only: filter_append length_append head LF_entries if_False)
  qed
qed

section \<open>The writer, and reading back what it wrote\<close>

lemma csv_chars_distinct:
  "LF \<noteq> CR" "LF \<noteq> delimiter" "LF \<noteq> quotechar" "CR \<noteq> delimiter" "CR \<noteq> quotechar"
  "delimiter \<noteq> quotechar" "CR \<noteq> LF" "delimiter \<noteq> LF" "quotechar \<noteq> LF"
  "delimiter \<noteq> CR" "quotechar \<noteq> CR" "quotechar \<noteq> delimiter"
  by (simp_all add: LF_def CR_def delimiter_def quotechar_def)

lemma escape_quotes_plain:
  "\<not> list_ex special field_data \<Longrightarrow> escape_quotes field_data = field_data"
  by (induction field_data) (auto simp: escape_quotes_def special_def)

lemma join_append_written:
  "rec (join_append self field_data False) =
     rec self @ (if 0 < num_fields self then [delimiter] else []) @ written_field field_data"
  "num_fields (join_append self field_data False) = num_fields self + 1"
proof -
  have "(\<lambda>c. c = delimiter \<or> c = quotechar \<or> c \<in> set lineterminator) = special"
    by (auto simp: fun_eq_iff special_def lineterminator_def)
  then have "list_ex (\<lambda>c. c = delimiter \<or> c = quotechar \<or> c \<in> set lineterminator) field_data
        = list_ex special field_data"
    by simp
  then show "rec (join_append self field_data False) =
     rec self @ (if 0 < num_fields self then [delimiter] else []) @ written_field field_data"
    using escape_quotes_plain [of field_data]
    by (simp add: join_append_def join_append_data_def written_field_def escape_quotes_def)
  show "num_fields (join_append self field_data False) = num_fields self + 1"
    by (simp add: join_append_def)
qed

lemma fold_join_append:
  "fold (\<lambda>field_data self. join_append self field_data False) (f # fs)
        \<lparr>rec = r, num_fields = n\<rparr>
     = \<lparr>rec = r @ (if 0 < n then [delimiter] else []) @ joined_fields (f # fs),
        num_fields = n + length (f # fs)\<rparr>"
proof (induction fs arbitrary: f r n)
  case Nil
  show ?case
    by (rule writer.equality) (simp_all add: join_append_written)
next
  case (Cons g fs)
  have step: "join_append \<lparr>rec = r, num_fields = n\<rparr> f False
      = \<lparr>rec = r @ (if 0 < n then [delimiter] else []) @ written_field f, num_fields = n + 1\<rparr>"
    by (rule writer.equality) (simp_all add: join_append_written)
  show ?case
    using Cons.IH [of g "r @ (if 0 < n then [delimiter] else []) @ written_field f" "n + 1"]
    by (simp add: step)
qed

lemma joined_fields_empty:
  "joined_fields row = [] \<longleftrightarrow> row = [] \<or> row = ['''']"
proof (cases row)
  case Nil
  then show ?thesis by simp
next
  case (Cons f fs)
  show ?thesis
  proof (cases fs)
    case Nil
    with Cons show ?thesis by (auto simp: written_field_def)
  next
    case (Cons g gs)
    with \<open>row = f # fs\<close> show ?thesis by simp
  qed
qed

lemma writerow_eq:
  "writerow row =
     (if row = [''''] then [quotechar, quotechar] else joined_fields row) @ [CR, LF]"
proof (cases row)
  case Nil
  then show ?thesis by (simp add: writerow_def lineterminator_def)
next
  case (Cons f fs)
  have fold: "fold (\<lambda>field_data self. join_append self field_data False) row
        \<lparr>rec = [], num_fields = 0\<rparr>
      = \<lparr>rec = joined_fields row, num_fields = length row\<rparr>"
    using fold_join_append [of f fs "[]" 0] by (simp add: Cons)
  show ?thesis
  proof (cases "row = ['''']")
    case True
    then show ?thesis
      by (simp add: writerow_def join_append_def join_append_data_def lineterminator_def
            written_field_def)
  next
    case False
    with Cons have "joined_fields row \<noteq> []"
      by (simp add: joined_fields_empty)
    with False show ?thesis
      by (simp add: writerow_def fold lineterminator_def Let_def)
  qed
qed

lemma StringIO_lines_Nil_iff: "StringIO_lines s = [] \<longleftrightarrow> s = []"
  by (cases s) (auto split: list.splits)

lemma read_record_char:
  assumes "c \<noteq> LF" and "s \<noteq> []"
  shows "read_record self (StringIO_lines (c # s)) =
           (case parse_process_char self (Ch c) of
              Inl e \<Rightarrow> Inl e
            | Inr self' \<Rightarrow> read_record self' (StringIO_lines s))"
proof -
  from assms(2) obtain l ls where lines: "StringIO_lines s = l # ls"
    by (cases "StringIO_lines s") (simp_all add: StringIO_lines_Nil_iff)
  show ?thesis
    using assms(1) by (simp add: lines split: sum.splits)
qed

lemma read_record_LF:
  "read_record self (StringIO_lines (LF # s)) =
     (case parse_process_char self (Ch LF) of
        Inl e \<Rightarrow> Inl e
      | Inr self1 \<Rightarrow>
          (case parse_process_char self1 EOL of
             Inl e \<Rightarrow> Inl e
           | Inr self2 \<Rightarrow>
               if state self2 = START_RECORD then Inr (fields' self2, StringIO_lines s)
               else read_record self2 (StringIO_lines s)))"
  by (simp split: sum.splits)

lemma in_field_run:
  assumes "\<not> list_ex special f" and "length acc + length f \<le> field_size_limit" and "t \<noteq> []"
  shows "read_record \<lparr>state = IN_FIELD, fields' = saved, field = acc\<rparr> (StringIO_lines (f @ t))
       = read_record \<lparr>state = IN_FIELD, fields' = saved, field = acc @ f\<rparr> (StringIO_lines t)"
  using assms
proof (induction f arbitrary: acc)
  case Nil
  show ?case by simp
next
  case (Cons c f)
  from Cons.prems(1) have "\<not> special c" and f: "\<not> list_ex special f"
    by simp_all
  then have c: "c \<noteq> LF" "c \<noteq> CR" "c \<noteq> delimiter" "c \<noteq> quotechar"
    by (simp_all add: special_def)
  from Cons.prems(2) have len: "\<not> field_size_limit \<le> length acc"
    and len': "length (acc @ [c]) + length f \<le> field_size_limit"
    by simp_all
  from Cons.prems(3) have ne: "f @ t \<noteq> []" by simp
  have "read_record \<lparr>state = IN_FIELD, fields' = saved, field = acc\<rparr>
          (StringIO_lines ((c # f) @ t))
      = read_record \<lparr>state = IN_FIELD, fields' = saved, field = acc @ [c]\<rparr>
          (StringIO_lines (f @ t))"
    using c len
    by (simp add: read_record_char [OF c(1) ne] parse_process_char_def parse_add_char_def
          del: StringIO_lines.simps)
  also have "\<dots> = read_record \<lparr>state = IN_FIELD, fields' = saved, field = (acc @ [c]) @ f\<rparr>
          (StringIO_lines t)"
    by (rule Cons.IH [OF f len' Cons.prems(3)])
  finally show ?case by simp
qed

lemma in_quoted_run:
  assumes "length acc + length f \<le> field_size_limit" and "t \<noteq> []"
  shows "read_record \<lparr>state = IN_QUOTED_FIELD, fields' = saved, field = acc\<rparr>
           (StringIO_lines (escape_quotes f @ t))
       = read_record \<lparr>state = IN_QUOTED_FIELD, fields' = saved, field = acc @ f\<rparr>
           (StringIO_lines t)"
  using assms
proof (induction f arbitrary: acc)
  case Nil
  show ?case by (simp add: escape_quotes_def)
next
  case (Cons c f)
  from Cons.prems(1) have len: "\<not> field_size_limit \<le> length acc"
    and len': "length (acc @ [c]) + length f \<le> field_size_limit"
    by simp_all
  from Cons.prems(2) have ne: "escape_quotes f @ t \<noteq> []" by simp
  have esc: "escape_quotes (x # f) = (if x = quotechar then [quotechar, x] else [x]) @ escape_quotes f"
    for x
    by (simp add: escape_quotes_def)
  have step: "read_record \<lparr>state = IN_QUOTED_FIELD, fields' = saved, field = acc\<rparr>
          (StringIO_lines (escape_quotes (c # f) @ t))
      = read_record \<lparr>state = IN_QUOTED_FIELD, fields' = saved, field = acc @ [c]\<rparr>
          (StringIO_lines (escape_quotes f @ t))"
  proof (cases "c = quotechar")
    case True
    have ne2: "quotechar # escape_quotes f @ t \<noteq> []" by simp
    show ?thesis
      using len csv_chars_distinct
      by (simp add: esc True read_record_char [OF _ ne2] read_record_char [OF _ ne]
            parse_process_char_def parse_add_char_def del: StringIO_lines.simps)
  next
    case False
    show ?thesis
    proof (cases "c = LF")
      case True
      with len csv_chars_distinct show ?thesis
        by (simp add: esc read_record_LF parse_process_char_def parse_add_char_def
              del: StringIO_lines.simps)
    next
      case notLF: False
      with False len show ?thesis
        by (simp add: esc read_record_char [OF notLF ne] parse_process_char_def
              parse_add_char_def del: StringIO_lines.simps)
    qed
  qed
  also have "\<dots> = read_record \<lparr>state = IN_QUOTED_FIELD, fields' = saved, field = (acc @ [c]) @ f\<rparr>
          (StringIO_lines t)"
    by (rule Cons.IH [OF len' Cons.prems(2)])
  finally show ?case by simp
qed

lemma field_run:
  assumes len: "length f \<le> field_size_limit" and d: "d = delimiter \<or> d = CR" and t: "t \<noteq> []"
  shows "read_record \<lparr>state = START_FIELD, fields' = saved, field = []\<rparr>
           (StringIO_lines (written_field f @ d # t))
       = read_record
           \<lparr>state = (if d = delimiter then START_FIELD else EAT_CRNL),
            fields' = saved @ [f], field = []\<rparr>
           (StringIO_lines t)"
proof -
  from d have dLF: "d \<noteq> LF" and dq: "d \<noteq> quotechar"
    using csv_chars_distinct by auto
  show ?thesis
  proof (cases "list_ex special f")
    case True
    have ne1: "escape_quotes f @ quotechar # d # t \<noteq> []" by simp
    have ne2: "d # t \<noteq> []" by simp
    have "read_record \<lparr>state = START_FIELD, fields' = saved, field = []\<rparr>
            (StringIO_lines (written_field f @ d # t))
        = read_record \<lparr>state = IN_QUOTED_FIELD, fields' = saved, field = []\<rparr>
            (StringIO_lines (escape_quotes f @ quotechar # d # t))"
      using True csv_chars_distinct
      by (simp add: written_field_def read_record_char [OF _ ne1] parse_process_char_def
            del: StringIO_lines.simps)
    also have "\<dots> = read_record \<lparr>state = IN_QUOTED_FIELD, fields' = saved, field = [] @ f\<rparr>
            (StringIO_lines (quotechar # d # t))"
      by (rule in_quoted_run) (simp_all add: len)
    also have "\<dots> = read_record \<lparr>state = QUOTE_IN_QUOTED_FIELD, fields' = saved, field = f\<rparr>
            (StringIO_lines (d # t))"
      using csv_chars_distinct
      by (simp add: read_record_char [OF _ ne2] parse_process_char_def
            del: StringIO_lines.simps)
    also have "\<dots> = read_record
           \<lparr>state = (if d = delimiter then START_FIELD else EAT_CRNL),
            fields' = saved @ [f], field = []\<rparr>
           (StringIO_lines t)"
      using d dq csv_chars_distinct
      by (auto simp: read_record_char [OF dLF t] parse_process_char_def parse_save_field_def
            simp del: StringIO_lines.simps)
    finally show ?thesis .
  next
    case False
    show ?thesis
    proof (cases f)
      case Nil
      with False d dq csv_chars_distinct show ?thesis
        by (auto simp: written_field_def read_record_char [OF dLF t] parse_process_char_def
              parse_save_field_def simp del: StringIO_lines.simps)
    next
      case (Cons c f')
      from False Cons have "\<not> special c" and f': "\<not> list_ex special f'"
        by simp_all
      then have c: "c \<noteq> LF" "c \<noteq> CR" "c \<noteq> delimiter" "c \<noteq> quotechar"
        by (simp_all add: special_def)
      from len Cons have pos: "\<not> field_size_limit \<le> 0"
        and len': "length [c] + length f' \<le> field_size_limit"
        by simp_all
      have ne1: "f' @ d # t \<noteq> []" by simp
      have ne2: "d # t \<noteq> []" by simp
      have "read_record \<lparr>state = START_FIELD, fields' = saved, field = []\<rparr>
              (StringIO_lines (written_field f @ d # t))
          = read_record \<lparr>state = IN_FIELD, fields' = saved, field = [c]\<rparr>
              (StringIO_lines (f' @ d # t))"
        using False c pos
        by (simp add: written_field_def Cons read_record_char [OF c(1) ne1]
              parse_process_char_def parse_add_char_def del: StringIO_lines.simps)
      also have "\<dots> = read_record \<lparr>state = IN_FIELD, fields' = saved, field = [c] @ f'\<rparr>
              (StringIO_lines (d # t))"
        by (rule in_field_run [OF f' len' ne2])
      also have "\<dots> = read_record
           \<lparr>state = (if d = delimiter then START_FIELD else EAT_CRNL),
            fields' = saved @ [f], field = []\<rparr>
           (StringIO_lines t)"
        using d dq csv_chars_distinct
        by (auto simp: Cons read_record_char [OF dLF t] parse_process_char_def
              parse_save_field_def simp del: StringIO_lines.simps)
      finally show ?thesis .
    qed
  qed
qed

lemma end_of_record:
  "read_record \<lparr>state = EAT_CRNL, fields' = saved, field = []\<rparr> (StringIO_lines (LF # rest))
     = Inr (saved, StringIO_lines rest)"
  by (simp add: read_record_LF parse_process_char_def del: StringIO_lines.simps)

lemma record_run:
  assumes "fs \<noteq> []" and "list_all (\<lambda>f. length f \<le> field_size_limit) fs"
  shows "read_record \<lparr>state = START_FIELD, fields' = saved, field = []\<rparr>
           (StringIO_lines (joined_fields fs @ CR # LF # rest))
       = Inr (saved @ fs, StringIO_lines rest)"
  using assms
proof (induction fs arbitrary: saved rule: joined_fields.induct)
  case 1
  then show ?case by simp
next
  case (2 f)
  then have len: "length f \<le> field_size_limit" by simp
  have "read_record \<lparr>state = START_FIELD, fields' = saved, field = []\<rparr>
          (StringIO_lines (written_field f @ CR # LF # rest))
      = read_record \<lparr>state = EAT_CRNL, fields' = saved @ [f], field = []\<rparr>
          (StringIO_lines (LF # rest))"
    using field_run [OF len, of CR "LF # rest" saved] csv_chars_distinct by simp
  then show ?case
    by (simp add: end_of_record del: StringIO_lines.simps)
next
  case (3 f g fs)
  then have len: "length f \<le> field_size_limit"
    and rest: "list_all (\<lambda>f. length f \<le> field_size_limit) (g # fs)"
    by simp_all
  have ne: "joined_fields (g # fs) @ CR # LF # rest \<noteq> []" by simp
  have "read_record \<lparr>state = START_FIELD, fields' = saved, field = []\<rparr>
          (StringIO_lines (written_field f @ delimiter # joined_fields (g # fs) @ CR # LF # rest))
      = read_record \<lparr>state = START_FIELD, fields' = saved @ [f], field = []\<rparr>
          (StringIO_lines (joined_fields (g # fs) @ CR # LF # rest))"
    using field_run [OF len _ ne, of delimiter saved] by simp
  also have "\<dots> = Inr ((saved @ [f]) @ g # fs, StringIO_lines rest)"
    by (rule "3.IH" [OF _ rest]) simp
  finally show ?case by simp
qed

lemma written_field_first:
  "written_field f = c # s \<Longrightarrow> c \<noteq> CR \<and> c \<noteq> LF"
  using csv_chars_distinct
  by (cases "list_ex special f"; cases f) (auto simp: written_field_def special_def)

lemma joined_fields_first:
  "joined_fields fs = c # s \<Longrightarrow> c \<noteq> CR \<and> c \<noteq> LF"
proof (induction fs rule: joined_fields.induct)
  case 1
  then show ?case by simp
next
  case (2 f)
  then show ?case by (simp add: written_field_first)
next
  case (3 f g fs)
  show ?case
  proof (cases "written_field f")
    case Nil
    with "3.prems" csv_chars_distinct show ?thesis by auto
  next
    case (Cons c' s')
    with "3.prems" have "c' = c" by simp
    with Cons written_field_first [of f c s'] show ?thesis by simp
  qed
qed

lemma start_record_as_start_field:
  assumes "c \<noteq> CR" and "c \<noteq> LF" and "s \<noteq> []"
  shows "read_record \<lparr>state = START_RECORD, fields' = saved, field = []\<rparr> (StringIO_lines (c # s))
       = read_record \<lparr>state = START_FIELD, fields' = saved, field = []\<rparr> (StringIO_lines (c # s))"
  using assms(1,2)
  by (simp add: read_record_char [OF assms(2,3)] parse_process_char_def
        del: StringIO_lines.simps)

lemma Reader_iternext_writerow:
  assumes "list_all (\<lambda>f. length f \<le> field_size_limit) row"
  shows "Reader_iternext (StringIO_lines (writerow row @ rest)) = Inr (row, StringIO_lines rest)"
proof (cases "row = []")
  case True
  have ne: "LF # rest \<noteq> []" by simp
  have "read_record \<lparr>state = START_RECORD, fields' = [], field = []\<rparr>
          (StringIO_lines (CR # LF # rest))
      = read_record \<lparr>state = EAT_CRNL, fields' = [], field = []\<rparr> (StringIO_lines (LF # rest))"
    using csv_chars_distinct
    by (simp add: read_record_char [OF _ ne] parse_process_char_def del: StringIO_lines.simps)
  with True show ?thesis
    by (simp add: Reader_iternext_def writerow_eq end_of_record del: StringIO_lines.simps)
next
  case nonempty: False
  show ?thesis
  proof (cases "row = ['''']")
    case True
    have ne1: "quotechar # CR # LF # rest \<noteq> []" and ne2: "CR # LF # rest \<noteq> []"
      and ne3: "LF # rest \<noteq> []"
      by simp_all
    have "read_record \<lparr>state = START_RECORD, fields' = [], field = []\<rparr>
            (StringIO_lines (quotechar # quotechar # CR # LF # rest))
        = read_record \<lparr>state = EAT_CRNL, fields' = [''''], field = []\<rparr>
            (StringIO_lines (LF # rest))"
      using csv_chars_distinct
      by (simp add: read_record_char [OF _ ne1] read_record_char [OF _ ne2]
            read_record_char [OF _ ne3] parse_process_char_def parse_save_field_def
            del: StringIO_lines.simps)
    with True show ?thesis
      by (simp add: Reader_iternext_def writerow_eq end_of_record del: StringIO_lines.simps)
  next
    case False
    with nonempty obtain c s where first: "joined_fields row = c # s"
      by (cases "joined_fields row") (simp_all add: joined_fields_empty)
    from joined_fields_first [OF first] have c: "c \<noteq> CR" "c \<noteq> LF" by simp_all
    have ne: "s @ CR # LF # rest \<noteq> []" by simp
    have "read_record \<lparr>state = START_RECORD, fields' = [], field = []\<rparr>
            (StringIO_lines (joined_fields row @ CR # LF # rest))
        = read_record \<lparr>state = START_FIELD, fields' = [], field = []\<rparr>
            (StringIO_lines (joined_fields row @ CR # LF # rest))"
      using start_record_as_start_field [OF c ne, of "[]"] by (simp add: first)
    also have "\<dots> = Inr ([] @ row, StringIO_lines rest)"
      by (rule record_run [OF nonempty assms])
    finally show ?thesis
      using False by (simp add: Reader_iternext_def writerow_eq del: StringIO_lines.simps)
  qed
qed

lemma read_all_writerows:
  assumes "list_all (list_all (\<lambda>f. length f \<le> field_size_limit)) rows"
  shows "read_all (StringIO_lines (writerows rows)) = (rows, StopIteration)"
  using assms
proof (induction rows)
  case Nil
  show ?case
    by (simp add: writerows_def read_all.simps [of "[]"] Reader_iternext_def)
next
  case (Cons row rows)
  then have row: "list_all (\<lambda>f. length f \<le> field_size_limit) row"
    and IH: "read_all (StringIO_lines (writerows rows)) = (rows, StopIteration)"
    by simp_all
  have w: "writerows (row # rows) = writerow row @ writerows rows"
    by (simp add: writerows_def)
  show ?case
    unfolding w
    by (subst read_all.simps) (simp add: Reader_iternext_writerow [OF row] IH)
qed

section \<open>Runs in which nothing is detected, and runs that succeed\<close>

lemma mask_cell_clean:
  "strip cell \<noteq> '''' \<longrightarrow> an cell ''en'' = Inr [] \<Longrightarrow>
     mask_cell an ano cell = Inr cell \<and> cell_results an cell = []"
  by (cases "strip cell = ''''") (simp_all add: mask_cell_def cell_results_def)

lemma mask_cells_clean:
  assumes "\<forall>cell\<in>set row. strip cell \<noteq> '''' \<longrightarrow> an cell ''en'' = Inr []"
  shows "mask_cells an ano row = Inr row \<and> concat (map (cell_results an) row) = []"
  using assms
proof (induction row)
  case Nil
  show ?case by simp
next
  case (Cons cell row)
  from Cons.prems have c: "strip cell \<noteq> '''' \<longrightarrow> an cell ''en'' = Inr []"
    and r: "\<forall>cell\<in>set row. strip cell \<noteq> '''' \<longrightarrow> an cell ''en'' = Inr []"
    by simp_all
  from mask_cell_clean [of cell an ano, OF c] Cons.IH [OF r] show ?case
    by simp
qed

lemma mask_rows_clean:
  assumes "\<forall>row\<in>set rows. \<forall>cell\<in>set row. strip cell \<noteq> '''' \<longrightarrow> an cell ''en'' = Inr []"
  shows "mask_rows an ano rows = Inr rows \<and> grid_results an rows = []"
  using assms
proof (induction rows)
  case Nil
  show ?case by (simp add: grid_results_Nil)
next
  case (Cons row rows)
  from Cons.prems have row: "\<forall>cell\<in>set row. strip cell \<noteq> '''' \<longrightarrow> an cell ''en'' = Inr []"
    and rest: "\<forall>row\<in>set rows. \<forall>cell\<in>set row. strip cell \<noteq> '''' \<longrightarrow> an cell ''en'' = Inr []"
    by simp_all
  from mask_cells_clean [of row an ano, OF row] Cons.IH [OF rest] show ?case
    by (simp add: grid_results_Cons)
qed

lemma mask_rows_shape:
  "mask_rows an ano rows = Inr masked \<Longrightarrow> map length masked = map length rows"
proof (induction rows arbitrary: masked)
  case Nil
  then show ?case by simp
next
  case (Cons row rows)
  from Cons.prems obtain m ms where
    m: "mask_cells an ano row = Inr m" and ms: "mask_rows an ano rows = Inr ms"
    and masked: "masked = m # ms"
    by (auto split: sum.splits)
  from Cons.IH [OF ms] mask_cells_Inr [OF m] show ?case
    by (simp add: masked)
qed

lemma run_succeeds:
  assumes rows: "input_rows input_csv_content = header # rows"
    and parses: "input_end input_csv_content = StopIteration"
    and engines: "\<forall>row\<in>set rows. \<forall>cell\<in>set row. strip cell \<noteq> '''' \<longrightarrow>
        (\<exists>results. an cell ''en'' = Inr results \<and>
           (results \<noteq> [] \<longrightarrow> (\<exists>masked. ano cell results operators = Inr masked)))"
  shows "\<exists>masked total_pii_found.
           deidentify_rows an ano input_csv_content = Inr (header # masked, total_pii_found)"
proof -
  have cell_ok: "\<exists>m. mask_cell an ano cell = Inr m"
    if row: "row \<in> set rows" and cell: "cell \<in> set row" for row cell
  proof (cases "strip cell = ''''")
    case True
    then show ?thesis by (simp add: mask_cell_def)
  next
    case False
    from engines [rule_format, OF row cell False] obtain results where
      an: "an cell ''en'' = Inr results"
      and ano: "results \<noteq> [] \<longrightarrow> (\<exists>masked. ano cell results operators = Inr masked)"
      by (elim exE conjE)
    show ?thesis
    proof (cases "results = []")
      case True
      with False an show ?thesis by (simp add: mask_cell_def)
    next
      case nonempty: False
      with ano obtain masked where "ano cell results operators = Inr masked" by (elim impE exE)
      with False an nonempty show ?thesis by (simp add: mask_cell_def)
    qed
  qed
  have "\<forall>row\<in>set rows. \<exists>m. mask_cells an ano row = Inr m"
  proof
    fix row
    assume row: "row \<in> set rows"
    have "\<forall>cell\<in>set row. \<exists>m. mask_cell an ano cell = Inr m"
      by (intro ballI) (rule cell_ok [OF row])
    then show "\<exists>m. mask_cells an ano row = Inr m"
      by (rule mask_cells_total)
  qed
  from mask_rows_total [OF this] obtain masked where "mask_rows an ano rows = Inr masked" ..
  then show ?thesis
    by (simp add: deidentify_rows_spec rows parses)
qed

section \<open>Fields the reader yields are within the field limit\<close>

lemma within_limit_process_char:
  assumes "within_limit self" and "parse_process_char self c = Inr self'"
  shows "within_limit self'"
proof (cases c)
  case EOL
  with assms show ?thesis
    by (cases "state self")
       (auto simp: parse_process_char_def within_limit_def parse_save_field_def)
next
  case (Ch ch)
  with assms show ?thesis
    by (cases "state self")
       (auto simp: parse_process_char_def within_limit_def parse_save_field_def
             parse_add_char_def split: if_splits)
qed

lemma within_limit_process_line:
  "within_limit self \<Longrightarrow> process_line self line = Inr self' \<Longrightarrow> within_limit self'"
proof (induction line arbitrary: self)
  case Nil
  then show ?case by (simp add: within_limit_process_char)
next
  case (Cons c line)
  then show ?case
    by (auto split: sum.splits dest: within_limit_process_char)
qed

lemma within_limit_read_record:
  "within_limit self \<Longrightarrow> read_record self input_iter = Inr (row, rest) \<Longrightarrow>
     list_all (\<lambda>f. length f \<le> field_size_limit) row"
proof (induction input_iter arbitrary: self)
  case Nil
  then show ?case
    by (auto simp: within_limit_def parse_save_field_def split: if_splits)
next
  case (Cons line input_iter)
  from Cons.prems(2) obtain self' where line: "process_line self line = Inr self'"
    by (auto split: sum.splits)
  from within_limit_process_line [OF Cons.prems(1) line] have lim: "within_limit self'" .
  show ?case
  proof (cases "state self' = START_RECORD")
    case True
    with Cons.prems(2) line lim show ?thesis
      by (auto simp: within_limit_def)
  next
    case False
    with Cons.prems(2) line have "read_record self' input_iter = Inr (row, rest)"
      by simp
    from Cons.IH [OF lim this] show ?thesis .
  qed
qed

lemma Reader_iternext_within_limit:
  "Reader_iternext input_iter = Inr (row, rest) \<Longrightarrow>
     list_all (\<lambda>f. length f \<le> field_size_limit) row"
  using within_limit_read_record
    [of "\<lparr>state = START_RECORD, fields' = [], field = []\<rparr>" input_iter row rest]
  by (simp add: Reader_iternext_def within_limit_def)

lemma read_all_within_limit:
  "read_all input_iter = (rows, e) \<Longrightarrow>
     list_all (list_all (\<lambda>f. length f \<le> field_size_limit)) rows"
proof (induction input_iter arbitrary: rows e rule: read_all.induct)
  case (1 input_iter)
  show ?case
  proof (cases "Reader_iternext input_iter")
    case (Inl e')
    with "1.prems" show ?thesis
      by (simp add: read_all.simps [of input_iter])
  next
    case (Inr p)
    obtain row rest where p: "p = (row, rest)" by (cases p)
    obtain rows' e' where ra: "read_all rest = (rows', e')" by (cases "read_all rest")
    from "1.prems" Inr p ra have rows: "rows = row # rows'"
      by (simp add: read_all.simps [of input_iter])
    from "1.IH" [OF Inr p [symmetric] ra] Reader_iternext_within_limit [OF Inr [unfolded p]]
    show ?thesis by (simp add: rows)
  qed
qed

lemma input_rows_within_limit:
  "list_all (list_all (\<lambda>f. length f \<le> field_size_limit)) (input_rows input_csv_content)"
  unfolding input_rows_def
  by (rule read_all_within_limit [of _ _ "snd (read_all (StringIO_lines input_csv_content))"])
     simp

lemma input_of_writerows:
  assumes "list_all (list_all (\<lambda>f. length f \<le> field_size_limit)) rows"
  shows "input_rows (writerows rows) = rows" and "input_end (writerows rows) = StopIteration"
  by (simp_all add: input_rows_def input_end_def read_all_writerows [OF assms])

lemma mask_cells_cong_on:
  assumes "\<forall>cell\<in>set row. mask_cell an' ano' cell = mask_cell an ano cell"
  shows "mask_cells an' ano' row = mask_cells an ano row"
  using assms by (induction row) (simp_all split: sum.splits)

lemma mask_rows_cong_on:
  assumes "\<forall>row\<in>set rows. \<forall>cell\<in>set row. mask_cell an' ano' cell = mask_cell an ano cell"
  shows "mask_rows an' ano' rows = mask_rows an ano rows"
  using assms
proof (induction rows)
  case Nil
  show ?case by simp
next
  case (Cons row rows)
  from Cons.prems have "mask_cells an' ano' row = mask_cells an ano row"
    by (intro mask_cells_cong_on) simp
  moreover from Cons.prems have "mask_rows an' ano' rows = mask_rows an ano rows"
    by (intro Cons.IH) simp
  ultimately show ?case by (simp split: sum.splits)
qed

lemma grid_results_cong_on:
  assumes "\<forall>row\<in>set rows. \<forall>cell\<in>set row. cell_results an' cell = cell_results an cell"
  shows "grid_results an' rows = grid_results an rows"
proof -
  have "map (cell_results an') (concat rows) = map (cell_results an) (concat rows)"
    using assms by (intro map_cong [OF refl]) auto
  then show ?thesis unfolding grid_results_def by (rule arg_cong)
qed

lemma deidentify_rows_cong_on:
  assumes rows: "input_rows input_csv_content = header # rows"
    and agree: "\<forall>row\<in>set rows. \<forall>cell\<in>set row.
        an' cell ''en'' = an cell ''en'' \<and>
        (\<forall>results. ano' cell results operators = ano cell results operators)"
  shows "deidentify_rows an' ano' input_csv_content = deidentify_rows an ano input_csv_content"
proof -
  have m: "\<forall>row\<in>set rows. \<forall>cell\<in>set row. mask_cell an' ano' cell = mask_cell an ano cell"
    using agree by (auto simp: mask_cell_def split: sum.splits)
  have r: "\<forall>row\<in>set rows. \<forall>cell\<in>set row. cell_results an' cell = cell_results an cell"
    using agree by (simp add: cell_results_def)
  show ?thesis
    unfolding deidentify_rows_spec rows
    by (simp add: mask_rows_cong_on [OF m] grid_results_cong_on [OF r] split: sum.splits)
qed

lemma field_end_LF:
  assumes len: "length f \<le> field_size_limit"
  shows "read_record \<lparr>state = START_FIELD, fields' = saved, field = []\<rparr>
           (StringIO_lines (written_field f @ LF # rest))
       = Inr (saved @ [f], StringIO_lines rest)"
proof (cases "list_ex special f")
  case True
  have ne1: "escape_quotes f @ quotechar # LF # rest \<noteq> []" by simp
  have ne2: "LF # rest \<noteq> []" by simp
  have "read_record \<lparr>state = START_FIELD, fields' = saved, field = []\<rparr>
          (StringIO_lines (written_field f @ LF # rest))
      = read_record \<lparr>state = IN_QUOTED_FIELD, fields' = saved, field = []\<rparr>
          (StringIO_lines (escape_quotes f @ quotechar # LF # rest))"
    using True csv_chars_distinct
    by (simp add: written_field_def read_record_char [OF _ ne1] parse_process_char_def
          del: StringIO_lines.simps)
  also have "\<dots> = read_record \<lparr>state = IN_QUOTED_FIELD, fields' = saved, field = [] @ f\<rparr>
          (StringIO_lines (quotechar # LF # rest))"
    by (rule in_quoted_run) (simp_all add: len)
  also have "\<dots> = read_record \<lparr>state = QUOTE_IN_QUOTED_FIELD, fields' = saved, field = f\<rparr>
          (StringIO_lines (LF # rest))"
    using csv_chars_distinct
    by (simp add: read_record_char [OF _ ne2] parse_process_char_def
          del: StringIO_lines.simps)
  also have "\<dots> = Inr (saved @ [f], StringIO_lines rest)"
    using csv_chars_distinct
    by (simp add: read_record_LF parse_process_char_def parse_save_field_def
          del: StringIO_lines.simps)
  finally show ?thesis .
next
  case False
  show ?thesis
  proof (cases f)
    case Nil
    with False csv_chars_distinct show ?thesis
      by (simp add: written_field_def read_record_LF parse_process_char_def
            parse_save_field_def del: StringIO_lines.simps)
  next
    case (Cons c f')
    from False Cons have "\<not> special c" and f': "\<not> list_ex special f'"
      by simp_all
    then have c: "c \<noteq> LF" "c \<noteq> CR" "c \<noteq> delimiter" "c \<noteq> quotechar"
      by (simp_all add: special_def)
    from len Cons have pos: "\<not> field_size_limit \<le> 0"
      and len': "length [c] + length f' \<le> field_size_limit"
      by simp_all
    have ne1: "f' @ LF # rest \<noteq> []" by simp
    have ne2: "LF # rest \<noteq> []" by simp
    have "read_record \<lparr>state = START_FIELD, fields' = saved, field = []\<rparr>
            (StringIO_lines (written_field f @ LF # rest))
        = read_record \<lparr>state = IN_FIELD, fields' = saved, field = [c]\<rparr>
            (StringIO_lines (f' @ LF # rest))"
      using False c pos
      by (simp add: written_field_def Cons read_record_char [OF c(1) ne1]
            parse_process_char_def parse_add_char_def del: StringIO_lines.simps)
    also have "\<dots> = read_record \<lparr>state = IN_FIELD, fields' = saved, field = [c] @ f'\<rparr>
            (StringIO_lines (LF # rest))"
      by (rule in_field_run [OF f' len' ne2])
    also have "\<dots> = Inr (saved @ [f], StringIO_lines rest)"
      using csv_chars_distinct
      by (simp add: Cons read_record_LF parse_process_char_def parse_save_field_def
            del: StringIO_lines.simps)
    finally show ?thesis .
  qed
qed

lemma record_run_LF:
  assumes "fs \<noteq> []" and "list_all (\<lambda>f. length f \<le> field_size_limit) fs"
  shows "read_record \<lparr>state = START_FIELD, fields' = saved, field = []\<rparr>
           (StringIO_lines (joined_fields fs @ LF # rest))
       = Inr (saved @ fs, StringIO_lines rest)"
  using assms
proof (induction fs arbitrary: saved rule: joined_fields.induct)
  case 1
  then show ?case by simp
next
  case (2 f)
  then have len: "length f \<le> field_size_limit" by simp
  from field_end_LF [OF len, of saved rest] show ?case
    by (simp del: StringIO_lines.simps)
next
  case (3 f g fs)
  then have len: "length f \<le> field_size_limit"
    and rest: "list_all (\<lambda>f. length f \<le> field_size_limit) (g # fs)"
    by simp_all
  have ne: "joined_fields (g # fs) @ LF # rest \<noteq> []" by simp
  have "read_record \<lparr>state = START_FIELD, fields' = saved, field = []\<rparr>
          (StringIO_lines (written_field f @ delimiter # joined_fields (g # fs) @ LF # rest))
      = read_record \<lparr>state = START_FIELD, fields' = saved @ [f], field = []\<rparr>
          (StringIO_lines (joined_fields (g # fs) @ LF # rest))"
    using field_run [OF len _ ne, of delimiter saved] by simp
  also have "\<dots> = Inr ((saved @ [f]) @ g # fs, StringIO_lines rest)"
    by (rule "3.IH" [OF _ rest]) simp
  finally show ?case by simp
qed

lemma Reader_iternext_row_LF:
  assumes "list_all (\<lambda>f. length f \<le> field_size_limit) row"
  shows "Reader_iternext
           (StringIO_lines
              (written_row row @ LF # rest))
         = Inr (row, StringIO_lines rest)"
proof (cases "row = []")
  case True
  then show ?thesis
    using csv_chars_distinct
    by (simp add: written_row_def Reader_iternext_def read_record_LF parse_process_char_def
          del: StringIO_lines.simps)
next
  case nonempty: False
  show ?thesis
  proof (cases "row = ['''']")
    case True
    have ne1: "quotechar # LF # rest \<noteq> []" and ne2: "LF # rest \<noteq> []"
      by simp_all
    have "read_record \<lparr>state = START_RECORD, fields' = [], field = []\<rparr>
            (StringIO_lines (quotechar # quotechar # LF # rest))
        = Inr ([''''], StringIO_lines rest)"
      using csv_chars_distinct
      by (simp add: read_record_char [OF _ ne1] read_record_char [OF _ ne2] read_record_LF
            parse_process_char_def parse_save_field_def del: StringIO_lines.simps)
    with True show ?thesis
      by (simp add: written_row_def Reader_iternext_def del: StringIO_lines.simps)
  next
    case False
    with nonempty obtain c s where first: "joined_fields row = c # s"
      by (cases "joined_fields row") (simp_all add: joined_fields_empty)
    from joined_fields_first [OF first] have c: "c \<noteq> CR" "c \<noteq> LF" by simp_all
    have ne: "s @ LF # rest \<noteq> []" by simp
    have "read_record \<lparr>state = START_RECORD, fields' = [], field = []\<rparr>
            (StringIO_lines (joined_fields row @ LF # rest))
        = read_record \<lparr>state = START_FIELD, fields' = [], field = []\<rparr>
            (StringIO_lines (joined_fields row @ LF # rest))"
      using start_record_as_start_field [OF c ne, of "[]"] by (simp add: first)
    also have "\<dots> = Inr ([] @ row, StringIO_lines rest)"
      by (rule record_run_LF [OF nonempty assms])
    finally show ?thesis
      using False by (simp add: written_row_def Reader_iternext_def del: StringIO_lines.simps)
  qed
qed

lemma input_of_row_LF:
  assumes "list_all (\<lambda>f. length f \<le> field_size_limit) row"
  shows "input_rows (written_row row @ [LF])
           = [row]"
    and "input_end (written_row row @ [LF])
           = StopIteration"
proof -
  let ?text = "written_row row @ [LF]"
  have next_row: "Reader_iternext (StringIO_lines ?text) = Inr (row, [])"
    using Reader_iternext_row_LF [OF assms, of "[]"] by simp
  have stop: "read_all [] = ([], StopIteration)"
    by (simp add: read_all.simps [of "[]"] Reader_iternext_def)
  have "read_all (StringIO_lines ?text) = ([row], StopIteration)"
    by (subst read_all.simps) (simp only: next_row stop sum.case prod.case)
  then show "input_rows ?text = [row]" and "input_end ?text = StopIteration"
    by (simp_all add: input_rows_def input_end_def)
qed

lemma writerow_written_row: "writerow row = written_row row @ [CR, LF]"
  by (simp add: writerow_eq written_row_def)

lemma writerows_written_rows:
  "writerows rows = concat (map (\<lambda>row. written_row row @ [CR, LF]) rows)"
proof -
  have fn: "writerow = (\<lambda>row. written_row row @ [CR, LF])"
    by (rule ext) (rule writerow_written_row)
  show ?thesis
    unfolding writerows_def fn ..
qed

section \<open>Concrete runs\<close>

definition example_csv :: string where
  "example_csv = ''name,email'' @ [LF] @ ''Alice,alice@example.com'' @ [LF]"

definition example_blank_csv :: string where
  "example_blank_csv = ''id,email'' @ [LF] @ ''  ,bob@example.com'' @ [LF]"

definition example_failing_csv :: string where
  "example_failing_csv =
     ''name,email'' @ [LF] @ ''Alice,alice@example.com'' @ [LF] @ ''Bob,oops!'' @ [LF]"

definition example_two_csv :: string where
  "example_two_csv = ''id,email'' @ [LF] @ ''1,a@x.org'' @ [LF] @ ''2,b@x.org'' @ [LF]"

definition example_contact_csv :: string where
  "example_contact_csv =
     ''id,contact'' @ [LF] @ ''x,555 1234'' @ [LF] @ ''y,a@x.org'' @ [LF] @ ''z,555 9876'' @ [LF]"

definition example_header_csv :: string where
  "example_header_csv = ''e@mail,note!'' @ [LF] @ ''a@x.org,ok'' @ [LF]"

definition example_clean_csv :: string where
  "example_clean_csv = ''id,note'' @ [LF] @ ''1,a b'' @ [LF] @ [LF] @ ''2, '' @ [CR, LF]"

lemmas csv_eval =
  Reader_iternext_def parse_process_char_def parse_add_char_def parse_save_field_def
  LF_def CR_def delimiter_def quotechar_def field_size_limit_def lineterminator_def
  writerows_def writerow_def join_append_def join_append_data_def

lemmas pipeline_eval =
  deidentify_data_def deidentify_rows_def row_loop.simps process_row_def enumerate_from_def
  upt_rec strip_def isspace_def operators_def

lemmas report_eval =
  report_content_def code_points_def title_def replace_underscores_def IsCased_def
  ToTitleFull_def ToLowerFull_def Let_def str_int_def

lemmas stub_eval =
  stub_analyzer_def deny_list_analyzer_def replace_anonymizer_def failing_anonymizer_def

lemma example_rows:
  "read_all (StringIO_lines example_csv) =
     ([[''name'', ''email''], [''Alice'', ''alice@example.com'']], StopIteration)"
  by (simp add: example_csv_def read_all.simps csv_eval)

lemma example_run:
  "deidentify_rows stub_analyzer replace_anonymizer example_csv =
     Inr ([[''name'', ''email''], [''Alice'', ''XXXXXX'']], [(''EMAIL_ADDRESS'', 1)])"
  by (simp add: example_csv_def pipeline_eval csv_eval stub_eval)

lemma example_blank_rows:
  "read_all (StringIO_lines example_blank_csv) =
     ([[''id'', ''email''], [''  '', ''bob@example.com'']], StopIteration)"
  by (simp add: example_blank_csv_def read_all.simps csv_eval)

lemma example_blank_run:
  "deidentify_rows stub_analyzer replace_anonymizer example_blank_csv =
     Inr ([[''id'', ''email''], [''  '', ''XXXXXX'']], [(''EMAIL_ADDRESS'', 1)])"
  by (simp add: example_blank_csv_def pipeline_eval csv_eval stub_eval)

lemma example_failing_rows:
  "read_all (StringIO_lines example_failing_csv) =
     ([[''name'', ''email''], [''Alice'', ''alice@example.com''], [''Bob'', ''oops!'']],
      StopIteration)"
  by (simp add: example_failing_csv_def read_all.simps csv_eval)

lemma example_two_rows:
  "read_all (StringIO_lines example_two_csv) =
     ([[''id'', ''email''], [''1'', ''a@x.org''], [''2'', ''b@x.org'']], StopIteration)"
  by (simp add: example_two_csv_def read_all.simps csv_eval)

lemma example_two_run:
  "deidentify_rows stub_analyzer replace_anonymizer example_two_csv =
     Inr ([[''id'', ''email''], [''1'', ''XXXXXX''], [''2'', ''XXXXXX'']],
          [(''EMAIL_ADDRESS'', 2)])"
  by (simp add: example_two_csv_def pipeline_eval csv_eval stub_eval)

lemma example_two_results:
  "grid_results stub_analyzer (tl (input_rows example_two_csv)) =
     [\<lparr>entity_type = ''EMAIL_ADDRESS'', start = 0, stop = 7\<rparr>,
      \<lparr>entity_type = ''EMAIL_ADDRESS'', start = 0, stop = 7\<rparr>]"
  by (simp add: input_rows_def example_two_rows grid_results_def cell_results_def strip_def
        isspace_def stub_analyzer_def)

lemma example_contact_rows:
  "read_all (StringIO_lines example_contact_csv) =
     ([[''id'', ''contact''], [''x'', ''555 1234''], [''y'', ''a@x.org''], [''z'', ''555 9876'']],
      StopIteration)"
  by (simp add: example_contact_csv_def read_all.simps csv_eval)

lemma example_contact_run:
  "deidentify_rows contact_analyzer replace_anonymizer example_contact_csv =
     Inr ([[''id'', ''contact''], [''x'', ''XXXXXX''], [''y'', ''XXXXXX''], [''z'', ''XXXXXX'']],
          [(''PHONE_NUMBER'', 2), (''EMAIL_ADDRESS'', 1)])"
  by (simp add: example_contact_csv_def pipeline_eval csv_eval stub_eval contact_analyzer_def)

lemma example_contact_results:
  "grid_results contact_analyzer (tl (input_rows example_contact_csv)) =
     [\<lparr>entity_type = ''PHONE_NUMBER'', start = 0, stop = 8\<rparr>,
      \<lparr>entity_type = ''EMAIL_ADDRESS'', start = 0, stop = 7\<rparr>,
      \<lparr>entity_type = ''PHONE_NUMBER'', start = 0, stop = 8\<rparr>]"
  by (simp add: input_rows_def example_contact_rows grid_results_def cell_results_def strip_def
        isspace_def contact_analyzer_def)

text \<open>
  \<open>str.title()\<close> on labels: an underscore is uncased, so the letter after it is
  capitalised; letters beyond ASCII are cased too (U+00E9 to U+00C9), and the title case
  of U+00FF, U+00DF and U+00B5 is U+0178, \<open>Ss\<close> and U+039C.
\<close>

lemma title_examples:
  "title ''EMAIL_ADDRESS'' = code_points ''Email_Address''"
  "title (replace_underscores ''US_SSN'') = code_points ''Us Ssn''"
  "title [CHR 0xE9, CHR ''t'', CHR 0xE9] = [201, 116, 233]"
  "title [CHR 0xFF, CHR ''e'', CHR ''s'', CHR '' '', CHR 0xDF, CHR ''a'', CHR '' '',
          CHR 0xB5, CHR ''M'']
     = [376, 101, 115, 32, 83, 115, 97, 32, 924, 109]"
  by (simp_all add: report_eval)

lemma example_header_rows:
  "read_all (StringIO_lines example_header_csv) =
     ([[''e@mail'', ''note!''], [''a@x.org'', ''ok'']], StopIteration)"
  by (simp add: example_header_csv_def read_all.simps csv_eval)

lemma example_header_run:
  "deidentify_rows stub_analyzer replace_anonymizer example_header_csv =
     Inr ([[''e@mail'', ''note!''], [''XXXXXX'', ''ok'']], [(''EMAIL_ADDRESS'', 1)])"
  by (simp add: example_header_csv_def pipeline_eval csv_eval stub_eval)

section \<open>The claims\<close>

text \<open>
  Claim C1. In a run that succeeds, take a data cell (row \<open>j > 0\<close>, column \<open>i\<close>) that is
  not blank. The analyzer was called on the cell's text and returned a list. If the list
  is empty the output cell is the input cell. Otherwise the anonymizer was called on the
  original text with the whole list and the one operator table
  \<open>DEFAULT \<mapsto> replace(new_value = "XXXXXX")\<close>, and what it returned is the output cell.
  The CSV text returned is the serialisation of this output grid.
\<close>

theorem cell_masked_by_uniform_policy:
  assumes run: "deidentify_rows an ano input_csv_content = Inr (deidentified_lines, total_pii_found)"
    and j: "0 < j" "j < length (input_rows input_csv_content)"
    and i: "i < length (input_rows input_csv_content ! j)"
    and nonblank: "strip (input_rows input_csv_content ! j ! i) \<noteq> ''''"
  shows "deidentify_data an ano input_csv_content =
           Inr (writerows deidentified_lines, report_content total_pii_found) \<and>
         (\<exists>results. an (input_rows input_csv_content ! j ! i) ''en'' = Inr results \<and>
            (if results = []
             then deidentified_lines ! j ! i = input_rows input_csv_content ! j ! i
             else ano (input_rows input_csv_content ! j ! i) results
                    [(''DEFAULT'',
                      \<lparr>operator_name = ''replace'', params = [(''new_value'', ''XXXXXX'')]\<rparr>)]
                  = Inr (deidentified_lines ! j ! i)))"
proof -
  have "mask_cell an ano (input_rows input_csv_content ! j ! i) = Inr (deidentified_lines ! j ! i)"
    by (rule masked_cell [OF run j i])
  with nonblank deidentify_data_rows [OF run] show ?thesis
    by (auto simp: mask_cell_def operators_def split: sum.splits if_splits)
qed

theorem cell_masked_by_uniform_policy_witness:
  "deidentify_rows stub_analyzer replace_anonymizer example_csv =
     Inr ([[''name'', ''email''], [''Alice'', ''XXXXXX'']], [(''EMAIL_ADDRESS'', 1)]) \<and>
   input_rows example_csv ! 1 ! 1 = ''alice@example.com'' \<and>
   strip ''alice@example.com'' \<noteq> '''' \<and>
   stub_analyzer ''alice@example.com'' ''en''
     = Inr [\<lparr>entity_type = ''EMAIL_ADDRESS'', start = 0, stop = 17\<rparr>] \<and>
   replace_anonymizer ''alice@example.com''
       [\<lparr>entity_type = ''EMAIL_ADDRESS'', start = 0, stop = 17\<rparr>]
       [(''DEFAULT'', \<lparr>operator_name = ''replace'', params = [(''new_value'', ''XXXXXX'')]\<rparr>)]
     = Inr ([[''name'', ''email''], [''Alice'', ''XXXXXX'']] ! 1 ! 1) \<and>
   deidentify_data stub_analyzer replace_anonymizer example_csv =
     Inr (''name,email'' @ [CR, LF] @ ''Alice,XXXXXX'' @ [CR, LF],
          code_points (''Summary Report'' @ [LF] @ ''--------------'' @ [LF]
            @ ''Total Email Address found: 1'' @ [LF]))"
  using cell_masked_by_uniform_policy [OF example_run, of 1 1] example_run
  by (simp add: input_rows_def example_rows strip_def isspace_def stub_eval csv_eval report_eval)

text \<open>
  Claim C4. In a run that succeeds, a data cell whose text is only white space (the empty
  text included) is in the output as it was, untrimmed. The engines are not called on it:
  replacing them by engines that differ on blank texts only (they may raise there) gives
  the same output grid, the same counts and the same texts. The trimmed text serves the
  test of line 29 alone; what is analysed, masked or copied is the original cell.
\<close>

theorem blank_cell_passthrough:
  assumes run: "deidentify_rows an ano input_csv_content = Inr (deidentified_lines, total_pii_found)"
    and j: "0 < j" "j < length (input_rows input_csv_content)"
    and i: "i < length (input_rows input_csv_content ! j)"
    and blank: "strip (input_rows input_csv_content ! j ! i) = ''''"
    and an': "\<forall>text. strip text \<noteq> '''' \<longrightarrow> an' text ''en'' = an text ''en''"
    and ano': "\<forall>text results. strip text \<noteq> '''' \<longrightarrow>
                 ano' text results operators = ano text results operators"
  shows "deidentified_lines ! j ! i = input_rows input_csv_content ! j ! i \<and>
         deidentify_rows an' ano' input_csv_content = Inr (deidentified_lines, total_pii_found) \<and>
         deidentify_data an' ano' input_csv_content = deidentify_data an ano input_csv_content"
proof -
  have "mask_cell an ano (input_rows input_csv_content ! j ! i) = Inr (deidentified_lines ! j ! i)"
    by (rule masked_cell [OF run j i])
  with blank have same: "deidentified_lines ! j ! i = input_rows input_csv_content ! j ! i"
    by (simp add: mask_cell_def)
  have rows: "deidentify_rows an' ano' input_csv_content = deidentify_rows an ano input_csv_content"
    by (rule deidentify_rows_cong
          [OF mask_cell_cong [of an' an ano' ano, OF an' ano'] cell_results_cong [of an' an, OF an']])
  from same rows run show ?thesis
    by (simp add: deidentify_data_def)
qed

theorem blank_cell_passthrough_witness:
  "deidentify_rows stub_analyzer replace_anonymizer example_blank_csv =
     Inr ([[''id'', ''email''], [''  '', ''XXXXXX'']], [(''EMAIL_ADDRESS'', 1)]) \<and>
   input_rows example_blank_csv ! 1 ! 0 = ''  '' \<and>
   strip ''  '' = '''' \<and>
   strict_analyzer ''  '' ''en'' = Inl (AnalyzerError ''blank text'') \<and>
   [[''id'', ''email''], [''  '', ''XXXXXX'']] ! 1 ! 0 = ''  '' \<and>
   deidentify_rows strict_analyzer replace_anonymizer example_blank_csv =
     Inr ([[''id'', ''email''], [''  '', ''XXXXXX'']], [(''EMAIL_ADDRESS'', 1)]) \<and>
   deidentify_data strict_analyzer replace_anonymizer example_blank_csv =
     deidentify_data stub_analyzer replace_anonymizer example_blank_csv"
proof -
  have rows: "input_rows example_blank_csv = [[''id'', ''email''], [''  '', ''bob@example.com'']]"
    by (simp add: input_rows_def example_blank_rows)
  have blank: "strip ''  '' = ''''"
    by (simp add: strip_def isspace_def)
  have an': "\<forall>text. strip text \<noteq> '''' \<longrightarrow>
               strict_analyzer text ''en'' = stub_analyzer text ''en''"
    by (simp add: strict_analyzer_def)
  have ano': "\<forall>text results. strip text \<noteq> '''' \<longrightarrow>
                replace_anonymizer text results operators
                  = replace_anonymizer text results operators"
    by simp
  have "[[''id'', ''email''], [''  '', ''XXXXXX'']] ! 1 ! 0 = input_rows example_blank_csv ! 1 ! 0 \<and>
        deidentify_rows strict_analyzer replace_anonymizer example_blank_csv =
          Inr ([[''id'', ''email''], [''  '', ''XXXXXX'']], [(''EMAIL_ADDRESS'', 1)]) \<and>
        deidentify_data strict_analyzer replace_anonymizer example_blank_csv =
          deidentify_data stub_analyzer replace_anonymizer example_blank_csv"
    by (rule blank_cell_passthrough
          [of stub_analyzer replace_anonymizer example_blank_csv _ _ 1 0
              strict_analyzer replace_anonymizer,
           OF example_blank_run _ _ _ _ an' ano'])
       (simp_all add: rows blank)
  with example_blank_run rows blank show ?thesis
    by (simp add: strict_analyzer_def)
qed

text \<open>
  Claim C5. If, for some non-blank cell of a data row, the analyzer raises, or it reports
  entities and the anonymizer raises, then the invocation fails: \<open>deidentify_data\<close>
  returns no CSV text and no report but an exception, and that exception is one an engine
  raised on a non-blank data cell (nothing is caught per cell, and nothing is replaced).
\<close>

theorem engine_error_fails_invocation:
  assumes rows: "input_rows input_csv_content = header # rows"
    and cell: "row \<in> set rows" "cell \<in> set row" "strip cell \<noteq> ''''"
    and fails: "an cell ''en'' = Inl e \<or>
                (\<exists>results. an cell ''en'' = Inr results \<and> results \<noteq> [] \<and>
                   ano cell results operators = Inl e)"
  shows "\<exists>e'. deidentify_rows an ano input_csv_content = Inl e' \<and>
              deidentify_data an ano input_csv_content = Inl e' \<and>
              (\<exists>row'\<in>set rows. \<exists>cell'\<in>set row'. strip cell' \<noteq> '''' \<and>
                 (an cell' ''en'' = Inl e' \<or>
                  (\<exists>results. an cell' ''en'' = Inr results \<and> results \<noteq> [] \<and>
                     ano cell' results operators = Inl e')))"
proof -
  from cell(3) fails have "mask_cell an ano cell = Inl e"
    by (auto simp: mask_cell_def)
  from mask_cells_Inl [OF cell(2) this] obtain e1 where "mask_cells an ano row = Inl e1" ..
  from mask_rows_Inl [OF cell(1) this] obtain e' where e': "mask_rows an ano rows = Inl e'" ..
  then have run: "deidentify_rows an ano input_csv_content = Inl e'"
    by (simp add: deidentify_rows_spec rows)
  from mask_rows_Inl_source [OF e'] obtain row' cell' where
    src: "row' \<in> set rows" "cell' \<in> set row'" "mask_cell an ano cell' = Inl e'"
    by blast
  from run deidentify_data_Inl [OF run] src mask_cell_Inl [OF src(3)] show ?thesis
    by blast
qed

theorem engine_error_fails_invocation_witness:
  "input_rows example_failing_csv =
     [''name'', ''email''] # [[''Alice'', ''alice@example.com''], [''Bob'', ''oops!'']] \<and>
   strip ''oops!'' \<noteq> '''' \<and>
   stub_analyzer ''oops!'' ''en'' = Inl (AnalyzerError ''unsupported input'') \<and>
   deidentify_rows stub_analyzer replace_anonymizer example_failing_csv =
     Inl (AnalyzerError ''unsupported input'') \<and>
   deidentify_data stub_analyzer replace_anonymizer example_failing_csv =
     Inl (AnalyzerError ''unsupported input'')"
proof -
  have rows: "input_rows example_failing_csv =
      [''name'', ''email''] # [[''Alice'', ''alice@example.com''], [''Bob'', ''oops!'']]"
    by (simp add: input_rows_def example_failing_rows)
  have nonblank: "strip ''oops!'' \<noteq> ''''"
    by (simp add: strip_def isspace_def)
  have raises: "stub_analyzer ''oops!'' ''en'' = Inl (AnalyzerError ''unsupported input'')"
    by (simp add: stub_analyzer_def)
  have run: "deidentify_rows stub_analyzer replace_anonymizer example_failing_csv =
      Inl (AnalyzerError ''unsupported input'')"
    by (simp add: example_failing_csv_def pipeline_eval csv_eval stub_eval)
  have "\<exists>e'. deidentify_rows stub_analyzer replace_anonymizer example_failing_csv = Inl e' \<and>
             deidentify_data stub_analyzer replace_anonymizer example_failing_csv = Inl e'"
    using engine_error_fails_invocation
      [OF rows _ _ nonblank, of "[''Bob'', ''oops!'']" stub_analyzer
          "AnalyzerError ''unsupported input''" replace_anonymizer]
      raises
    by auto
  with run rows nonblank raises show ?thesis
    by simp
qed

text \<open>
  Claim C6. On the empty input text the reader yields no row, \<open>next(reader)\<close> at line 23
  raises \<open>StopIteration\<close>, and the invocation fails with it: no CSV text and no report
  are produced, whatever the engines.
\<close>

theorem empty_input_fails:
  "deidentify_data an ano '''' = Inl StopIteration \<and>
   deidentify_rows an ano '''' = Inl StopIteration \<and>
   input_rows '''' = []"
  by (simp add: deidentify_data_def deidentify_rows_def Reader_iternext_def input_rows_def
        read_all.simps)

text \<open>
  Claim C10. In a run that succeeds, every count of the returned dictionary is positive
  and no key occurs twice. A key is present exactly when the analyzer reported an entity
  of that type for some non-blank cell of a data row, and its count is the number of such
  reports over the grid. Counts never decrease: along the cell loop and along the row
  loop, the count of every key at the end is at least its count at the start.
\<close>

theorem counts_positive_and_exact:
  assumes run: "deidentify_rows an ano input_csv_content = Inr (deidentified_lines, total_pii_found)"
  shows "(\<forall>(key, count)\<in>set total_pii_found. 0 < count) \<and>
         distinct (map fst total_pii_found) \<and>
         (\<forall>key. key \<in> fst ` set total_pii_found \<longleftrightarrow>
            (\<exists>row\<in>set (tl (input_rows input_csv_content)). \<exists>cell\<in>set row.
               strip cell \<noteq> '''' \<and>
               (\<exists>results. an cell ''en'' = Inr results \<and> key \<in> entity_type ` set results))) \<and>
         (\<forall>key. dict_get total_pii_found key 0 =
            int (length (filter (\<lambda>r. entity_type r = key)
                           (grid_results an (tl (input_rows input_csv_content)))))) \<and>
         (\<forall>input_iter lines counts lines' counts' key.
            row_loop an ano input_iter (lines, counts) = Inr (lines', counts') \<longrightarrow>
            dict_get counts key 0 \<le> dict_get counts' key 0) \<and>
         (\<forall>cells row counts row' counts' key.
            cell_loop an ano cells (row, counts) = Inr (row', counts') \<longrightarrow>
            dict_get counts key 0 \<le> dict_get counts' key 0)"
proof -
  from deidentify_rows_Inr [OF run] obtain header rows masked where
    rows: "input_rows input_csv_content = header # rows"
    and total: "total_pii_found = update_counts (grid_results an rows) []"
    by blast
  have pos: "\<forall>(key, count)\<in>set total_pii_found. 0 < count"
    unfolding total by (rule positive_update_counts) simp
  have dist: "distinct (map fst total_pii_found)"
    unfolding total by (rule distinct_update_counts) simp
  have keys: "key \<in> fst ` set total_pii_found \<longleftrightarrow>
      (\<exists>row\<in>set rows. \<exists>cell\<in>set row. strip cell \<noteq> '''' \<and>
         (\<exists>results. an cell ''en'' = Inr results \<and> key \<in> entity_type ` set results))" for key
  proof -
    have "key \<in> fst ` set total_pii_found \<longleftrightarrow> key \<in> entity_type ` set (grid_results an rows)"
      by (simp add: total keys_update_counts)
    also have "\<dots> \<longleftrightarrow> (\<exists>r. r \<in> set (grid_results an rows) \<and> entity_type r = key)"
      by auto
    also have "\<dots> \<longleftrightarrow> (\<exists>row\<in>set rows. \<exists>cell\<in>set row. strip cell \<noteq> '''' \<and>
         (\<exists>results. an cell ''en'' = Inr results \<and> key \<in> entity_type ` set results))"
      unfolding entity_in_grid_results cell_results_iff by blast
    finally show ?thesis .
  qed
  have exact: "dict_get total_pii_found key 0 =
      int (length (filter (\<lambda>r. entity_type r = key) (grid_results an rows)))" for key
    by (simp add: total dict_get_update_counts)
  from pos dist keys exact show ?thesis
    using row_loop_mono cell_loop_mono by (simp add: rows)
qed

theorem counts_positive_and_exact_witness:
  "deidentify_rows stub_analyzer replace_anonymizer example_two_csv =
     Inr ([[''id'', ''email''], [''1'', ''XXXXXX''], [''2'', ''XXXXXX'']],
          [(''EMAIL_ADDRESS'', 2)]) \<and>
   dict_get [(''EMAIL_ADDRESS'', 2)] ''EMAIL_ADDRESS'' 0 =
     int (length (filter (\<lambda>r. entity_type r = ''EMAIL_ADDRESS'')
                    (grid_results stub_analyzer (tl (input_rows example_two_csv))))) \<and>
   length (grid_results stub_analyzer (tl (input_rows example_two_csv))) = 2 \<and>
   distinct (map fst [(''EMAIL_ADDRESS'', 2 :: int)])"
proof -
  note all = counts_positive_and_exact [OF example_two_run]
  note exact = all [THEN conjunct2, THEN conjunct2, THEN conjunct2, THEN conjunct1, THEN spec,
                    of "''EMAIL_ADDRESS''"]
  note dist = all [THEN conjunct2, THEN conjunct1]
  from example_two_run exact dist show ?thesis
    by (simp add: example_two_results)
qed

text \<open>
  Claim C3, amended. In a run that succeeds, take a non-blank data cell (row \<open>j > 0\<close>,
  column \<open>i\<close>) for which the analyzer returns \<open>N\<close> entities. If \<open>N = 0\<close> the output cell
  at \<open>(j, i)\<close> is the input cell; if \<open>N > 0\<close> it is what the anonymizer returned for the
  cell. So an output cell that differs from the input cell has \<open>N > 0\<close>; the converse is
  not promised, as the anonymizer's result may be the cell's own text. The iteration of
  the cell loop on this cell, from whatever row copy and dictionary, writes column \<open>i\<close>
  only when \<open>N > 0\<close>, adds exactly \<open>N\<close> to the sum of all counts, and adds to each key's
  count the number of returned entities of that type (an absent key counts from 0, so
  its first occurrence gives 1). \<open>process_row\<close> on row \<open>j\<close>, from whatever dictionary,
  returns output row \<open>j\<close> and adds to the sum the \<open>N\<close> of each cell of the row, a blank
  cell having none. The sum of the counts returned by the run is the sum of \<open>N\<close> over
  all data cells, each taken once.
\<close>

theorem cell_counts_and_mask:
  assumes run: "deidentify_rows an ano input_csv_content = Inr (deidentified_lines, total_pii_found)"
    and j: "0 < j" "j < length (input_rows input_csv_content)"
    and i: "i < length (input_rows input_csv_content ! j)"
    and nonblank: "strip (input_rows input_csv_content ! j ! i) \<noteq> ''''"
  shows "\<exists>results.
           an (input_rows input_csv_content ! j ! i) ''en'' = Inr results \<and>
           cell_results an (input_rows input_csv_content ! j ! i) = results \<and>
           (results = [] \<longrightarrow> deidentified_lines ! j ! i = input_rows input_csv_content ! j ! i) \<and>
           (results \<noteq> [] \<longrightarrow>
              ano (input_rows input_csv_content ! j ! i) results operators
                = Inr (deidentified_lines ! j ! i)) \<and>
           (deidentified_lines ! j ! i \<noteq> input_rows input_csv_content ! j ! i
              \<longrightarrow> 0 < length results) \<and>
           (\<forall>deidentified_row counts. \<exists>counts'.
              cell_loop an ano [(i, input_rows input_csv_content ! j ! i)] (deidentified_row, counts)
                = Inr (if results = [] then deidentified_row
                       else deidentified_row[i := deidentified_lines ! j ! i], counts') \<and>
              sum_list (map snd counts') = sum_list (map snd counts) + int (length results) \<and>
              (\<forall>key. dict_get counts' key 0
                 = dict_get counts key 0
                   + int (length (filter (\<lambda>r. entity_type r = key) results)))) \<and>
           (\<forall>counts. \<exists>counts'.
              process_row an ano (input_rows input_csv_content ! j) counts
                = Inr (deidentified_lines ! j, counts') \<and>
              sum_list (map snd counts')
                = sum_list (map snd counts)
                  + (\<Sum>cell\<leftarrow>input_rows input_csv_content ! j.
                       int (length (cell_results an cell)))) \<and>
           sum_list (map snd total_pii_found)
             = (\<Sum>row\<leftarrow>tl (input_rows input_csv_content). \<Sum>cell\<leftarrow>row.
                  int (length (cell_results an cell)))"
proof -
  let ?cell = "input_rows input_csv_content ! j ! i"
  let ?out = "deidentified_lines ! j ! i"
  let ?row = "input_rows input_csv_content ! j"
  have m: "mask_cell an ano ?cell = Inr ?out"
    by (rule masked_cell [OF run j i])
  with nonblank obtain results where
    detected: "an ?cell ''en'' = Inr results"
    and masked: "if results \<noteq> [] then ano ?cell results operators = Inr ?out else ?out = ?cell"
    by (auto simp: mask_cell_def split: sum.splits if_splits)
  have res: "cell_results an ?cell = results"
    using nonblank detected by (simp add: cell_results_def)
  have same: "results = [] \<longrightarrow> ?out = ?cell"
    using masked by simp
  have eng: "results \<noteq> [] \<longrightarrow> ano ?cell results operators = Inr ?out"
    using masked by simp
  have diff: "?out \<noteq> ?cell \<longrightarrow> 0 < length results"
    using masked by auto
  have step: "\<forall>deidentified_row counts. \<exists>counts'.
      cell_loop an ano [(i, ?cell)] (deidentified_row, counts)
        = Inr (if results = [] then deidentified_row else deidentified_row[i := ?out], counts') \<and>
      sum_list (map snd counts') = sum_list (map snd counts) + int (length results) \<and>
      (\<forall>key. dict_get counts' key 0
         = dict_get counts key 0 + int (length (filter (\<lambda>r. entity_type r = key) results)))"
  proof (intro allI)
    fix deidentified_row counts
    have "cell_loop an ano [(i, ?cell)] (deidentified_row, counts)
        = Inr (if results = [] then deidentified_row else deidentified_row[i := ?out],
               update_counts results counts)"
      using nonblank detected masked by (cases "results = []") simp_all
    then show "\<exists>counts'.
      cell_loop an ano [(i, ?cell)] (deidentified_row, counts)
        = Inr (if results = [] then deidentified_row else deidentified_row[i := ?out], counts') \<and>
      sum_list (map snd counts') = sum_list (map snd counts) + int (length results) \<and>
      (\<forall>key. dict_get counts' key 0
         = dict_get counts key 0 + int (length (filter (\<lambda>r. entity_type r = key) results)))"
      using sum_update_counts [of results counts] dict_get_update_counts [of results counts]
      by blast
  qed
  have row: "\<forall>counts. \<exists>counts'.
      process_row an ano ?row counts = Inr (deidentified_lines ! j, counts') \<and>
      sum_list (map snd counts')
        = sum_list (map snd counts) + (\<Sum>cell\<leftarrow>?row. int (length (cell_results an cell)))"
  proof (intro allI)
    fix counts
    have "process_row an ano ?row counts
        = Inr (deidentified_lines ! j,
               update_counts (concat (map (cell_results an) ?row)) counts)"
      unfolding process_row_spec masked_row [OF run j] by simp
    moreover have "sum_list (map snd (update_counts (concat (map (cell_results an) ?row)) counts))
        = sum_list (map snd counts) + (\<Sum>cell\<leftarrow>?row. int (length (cell_results an cell)))"
      unfolding sum_update_counts length_concat_map_int ..
    ultimately show "\<exists>counts'.
      process_row an ano ?row counts = Inr (deidentified_lines ! j, counts') \<and>
      sum_list (map snd counts')
        = sum_list (map snd counts) + (\<Sum>cell\<leftarrow>?row. int (length (cell_results an cell)))"
      by blast
  qed
  from deidentify_rows_Inr [OF run] obtain header rows masked' where
    rows: "input_rows input_csv_content = header # rows"
    and total: "total_pii_found = update_counts (grid_results an rows) []"
    by blast
  have sum: "sum_list (map snd total_pii_found)
      = (\<Sum>row\<leftarrow>tl (input_rows input_csv_content). \<Sum>cell\<leftarrow>row.
           int (length (cell_results an cell)))"
    unfolding total sum_update_counts length_grid_results by (simp add: rows)
  show ?thesis
    by (rule exI [of _ results])
       (rule conjI [OF detected conjI [OF res conjI [OF same conjI [OF eng conjI [OF diff
          conjI [OF step conjI [OF row sum]]]]]]])
qed

theorem cell_counts_and_mask_witness:
  "deidentify_rows stub_analyzer replace_anonymizer example_two_csv =
     Inr ([[''id'', ''email''], [''1'', ''XXXXXX''], [''2'', ''XXXXXX'']],
          [(''EMAIL_ADDRESS'', 2)]) \<and>
   input_rows example_two_csv = [[''id'', ''email''], [''1'', ''a@x.org''], [''2'', ''b@x.org'']] \<and>
   strip ''b@x.org'' \<noteq> '''' \<and>
   stub_analyzer ''b@x.org'' ''en''
     = Inr [\<lparr>entity_type = ''EMAIL_ADDRESS'', start = 0, stop = 7\<rparr>] \<and>
   replace_anonymizer ''b@x.org''
       [\<lparr>entity_type = ''EMAIL_ADDRESS'', start = 0, stop = 7\<rparr>] operators
     = Inr ([[''id'', ''email''], [''1'', ''XXXXXX''], [''2'', ''XXXXXX'']] ! 2 ! 1) \<and>
   (\<exists>counts'.
      process_row stub_analyzer replace_anonymizer [''2'', ''b@x.org''] [(''EMAIL_ADDRESS'', 1)]
        = Inr ([''2'', ''XXXXXX''], counts') \<and>
      sum_list (map snd counts') = 1 + 1) \<and>
   sum_list (map snd [(''EMAIL_ADDRESS'', 2 :: int)]) = 2"
proof -
  have rows: "input_rows example_two_csv
      = [[''id'', ''email''], [''1'', ''a@x.org''], [''2'', ''b@x.org'']]"
    by (simp add: input_rows_def example_two_rows)
  have nonblank: "strip ''b@x.org'' \<noteq> ''''"
    by (simp add: strip_def isspace_def)
  have detected: "stub_analyzer ''b@x.org'' ''en''
      = Inr [\<lparr>entity_type = ''EMAIL_ADDRESS'', start = 0, stop = 7\<rparr>]"
    by (simp add: stub_analyzer_def)
  have res: "cell_results stub_analyzer ''2'' = []"
    "cell_results stub_analyzer ''b@x.org''
       = [\<lparr>entity_type = ''EMAIL_ADDRESS'', start = 0, stop = 7\<rparr>]"
    "cell_results stub_analyzer ''1'' = []"
    "cell_results stub_analyzer ''a@x.org''
       = [\<lparr>entity_type = ''EMAIL_ADDRESS'', start = 0, stop = 7\<rparr>]"
    by (simp_all add: cell_results_def strip_def isspace_def stub_analyzer_def)
  from cell_counts_and_mask [OF example_two_run, of 2 1 ]
  obtain results where
    r: "stub_analyzer (input_rows example_two_csv ! 2 ! 1) ''en'' = Inr results"
    and eng: "results \<noteq> [] \<longrightarrow>
        replace_anonymizer (input_rows example_two_csv ! 2 ! 1) results operators
          = Inr ([[''id'', ''email''], [''1'', ''XXXXXX''], [''2'', ''XXXXXX'']] ! 2 ! 1)"
    and row: "\<forall>counts. \<exists>counts'.
        process_row stub_analyzer replace_anonymizer (input_rows example_two_csv ! 2) counts
          = Inr ([[''id'', ''email''], [''1'', ''XXXXXX''], [''2'', ''XXXXXX'']] ! 2, counts') \<and>
        sum_list (map snd counts')
          = sum_list (map snd counts)
            + (\<Sum>cell\<leftarrow>input_rows example_two_csv ! 2.
                 int (length (cell_results stub_analyzer cell)))"
    and sum: "sum_list (map snd [(''EMAIL_ADDRESS'', 2 :: int)])
        = (\<Sum>row\<leftarrow>tl (input_rows example_two_csv). \<Sum>cell\<leftarrow>row.
             int (length (cell_results stub_analyzer cell)))"
    using rows nonblank by auto
  from r detected have results: "results = [\<lparr>entity_type = ''EMAIL_ADDRESS'', start = 0, stop = 7\<rparr>]"
    by (simp add: rows)
  have a: "replace_anonymizer ''b@x.org''
       [\<lparr>entity_type = ''EMAIL_ADDRESS'', start = 0, stop = 7\<rparr>] operators
     = Inr ([[''id'', ''email''], [''1'', ''XXXXXX''], [''2'', ''XXXXXX'']] ! 2 ! 1)"
    using eng by (simp add: results rows)
  have b: "\<exists>counts'.
      process_row stub_analyzer replace_anonymizer [''2'', ''b@x.org''] [(''EMAIL_ADDRESS'', 1)]
        = Inr ([''2'', ''XXXXXX''], counts') \<and>
      sum_list (map snd counts') = 1 + 1"
    using row [THEN spec, of "[(''EMAIL_ADDRESS'', 1)]"] by (simp add: rows res)
  have c: "sum_list (map snd [(''EMAIL_ADDRESS'', 2 :: int)]) = 2"
    using sum by (simp add: rows res)
  show ?thesis
    by (rule conjI [OF example_two_run conjI [OF rows conjI [OF nonblank conjI [OF detected
          conjI [OF a conjI [OF b c]]]]]])
qed

text \<open>
  Claim C3 as stated fails. With an analyzer that reports the text \<open>XXXXXX\<close> as an entity
  and the replacing anonymizer, the cell \<open>XXXXXX\<close> has \<open>N = 1\<close> and is counted, and the
  output cell equals the input cell.
\<close>

theorem masked_cell_may_equal_input:
  "deny_list_analyzer [''XXXXXX''] ''XXXXXX'' ''en''
     = Inr [\<lparr>entity_type = ''CUSTOM'', start = 0, stop = 6\<rparr>] \<and>
   strip ''XXXXXX'' \<noteq> '''' \<and>
   input_rows (''id'' @ [LF] @ ''XXXXXX'' @ [LF]) = [[''id''], [''XXXXXX'']] \<and>
   deidentify_rows (deny_list_analyzer [''XXXXXX'']) replace_anonymizer
       (''id'' @ [LF] @ ''XXXXXX'' @ [LF])
     = Inr ([[''id''], [''XXXXXX'']], [(''CUSTOM'', 1)]) \<and>
   \<not> ([[''id''], [''XXXXXX'']] ! 1 ! 0 \<noteq> input_rows (''id'' @ [LF] @ ''XXXXXX'' @ [LF]) ! 1 ! 0
        \<longleftrightarrow> 0 < length [\<lparr>entity_type = ''CUSTOM'', start = 0, stop = 6\<rparr>])"
proof -
  have rows: "input_rows (''id'' @ [LF] @ ''XXXXXX'' @ [LF]) = [[''id''], [''XXXXXX'']]"
    by (simp add: input_rows_def read_all.simps csv_eval)
  have run: "deidentify_rows (deny_list_analyzer [''XXXXXX'']) replace_anonymizer
       (''id'' @ [LF] @ ''XXXXXX'' @ [LF])
     = Inr ([[''id''], [''XXXXXX'']], [(''CUSTOM'', 1)])"
    by (simp add: pipeline_eval csv_eval stub_eval)
  have nonblank: "strip ''XXXXXX'' \<noteq> ''''"
    by (simp add: strip_def isspace_def)
  from rows run nonblank show ?thesis
    by (simp add: deny_list_analyzer_def)
qed

text \<open>
  Claim C7, amended. The report of a run that succeeds is a sequence of entries, each
  ended by LF: \<open>Summary Report\<close>, fourteen hyphens, and then, when the dictionary is
  empty, the single entry \<open>No PII found in the provided data.\<close>, otherwise one entry per
  key of the dictionary and no other, of the form \<open>Total <Label> found: <count>\<close>, where
  the label is \<open>key.replace('_', ' ').title()\<close> and the count is the key's value. The
  entries follow the insertion order of the dictionary, which is the order in which the
  entity types were first reported, the data cells taken row by row and left to right.
  The keys are distinct and are exactly the entity types the analyzer reported on the
  data rows. The report holds one LF per entry and one per LF inside a key: an entry is
  one line of text unless its entity type holds a line feed.
\<close>

theorem report_format:
  assumes run: "deidentify_rows an ano input_csv_content = Inr (deidentified_lines, total_pii_found)"
  shows "deidentify_data an ano input_csv_content =
           Inr (writerows deidentified_lines, report_content total_pii_found) \<and>
         report_content total_pii_found =
           concat (map (\<lambda>line. line @ code_points [LF])
             ([code_points ''Summary Report'', code_points ''--------------'']
              @ (if total_pii_found = []
                 then [code_points ''No PII found in the provided data.'']
                 else map (\<lambda>(key, count).
                             code_points ''Total '' @ title (replace_underscores key)
                               @ code_points ('' found: '' @ str_int count))
                        total_pii_found))) \<and>
         map fst total_pii_found =
           first_occurrences
             (map entity_type (grid_results an (tl (input_rows input_csv_content)))) \<and>
         distinct (map fst total_pii_found) \<and>
         fst ` set total_pii_found =
           entity_type ` set (grid_results an (tl (input_rows input_csv_content))) \<and>
         length (filter (\<lambda>n. n = of_char LF) (report_content total_pii_found)) =
           2 + (if total_pii_found = [] then 1
                else length total_pii_found
                     + sum_list (map (\<lambda>(key, count). length (filter (\<lambda>c. c = LF) key))
                                  total_pii_found))"
proof -
  from deidentify_rows_Inr [OF run] obtain header rows masked where
    rows: "input_rows input_csv_content = header # rows"
    and total: "total_pii_found = update_counts (grid_results an rows) []"
    by blast
  have lines: "report_content total_pii_found =
           concat (map (\<lambda>line. line @ code_points [LF])
             ([code_points ''Summary Report'', code_points ''--------------'']
              @ (if total_pii_found = []
                 then [code_points ''No PII found in the provided data.'']
                 else map (\<lambda>(key, count).
                             code_points ''Total '' @ title (replace_underscores key)
                               @ code_points ('' found: '' @ str_int count))
                        total_pii_found)))"
    using report_content_lines [of total_pii_found] by (simp add: code_points_def)
  have order: "map fst total_pii_found =
      first_occurrences (map entity_type (grid_results an (tl (input_rows input_csv_content))))"
    by (simp add: total rows keys_in_first_occurrence_order)
  have dist: "distinct (map fst total_pii_found)"
    unfolding total by (rule distinct_update_counts) simp
  have keys: "fst ` set total_pii_found =
      entity_type ` set (grid_results an (tl (input_rows input_csv_content)))"
    by (simp add: total rows keys_update_counts)
  have count: "length (filter (\<lambda>n. n = of_char LF) (report_content total_pii_found)) =
           2 + (if total_pii_found = [] then 1
                else length total_pii_found
                     + sum_list (map (\<lambda>(key, count). length (filter (\<lambda>c. c = LF) key))
                                  total_pii_found))"
    by (rule LF_report_content)
  show ?thesis
    by (rule conjI [OF deidentify_data_rows [OF run]
          conjI [OF lines conjI [OF order conjI [OF dist conjI [OF keys count]]]]])
qed

theorem report_format_witness:
  "deidentify_rows contact_analyzer replace_anonymizer example_contact_csv =
     Inr ([[''id'', ''contact''], [''x'', ''XXXXXX''], [''y'', ''XXXXXX''], [''z'', ''XXXXXX'']],
          [(''PHONE_NUMBER'', 2), (''EMAIL_ADDRESS'', 1)]) \<and>
   deidentify_data contact_analyzer replace_anonymizer example_contact_csv =
     Inr (''id,contact'' @ [CR, LF] @ ''x,XXXXXX'' @ [CR, LF] @ ''y,XXXXXX'' @ [CR, LF]
            @ ''z,XXXXXX'' @ [CR, LF],
          code_points (''Summary Report'' @ [LF] @ ''--------------'' @ [LF]
            @ ''Total Phone Number found: 2'' @ [LF]
            @ ''Total Email Address found: 1'' @ [LF])) \<and>
   map fst [(''PHONE_NUMBER'', 2 :: int), (''EMAIL_ADDRESS'', 1)] =
     first_occurrences
       (map entity_type (grid_results contact_analyzer (tl (input_rows example_contact_csv)))) \<and>
   first_occurrences
       (map entity_type (grid_results contact_analyzer (tl (input_rows example_contact_csv))))
     = [''PHONE_NUMBER'', ''EMAIL_ADDRESS''] \<and>
   length (filter (\<lambda>n. n = of_char LF)
             (report_content [(''PHONE_NUMBER'', 2), (''EMAIL_ADDRESS'', 1)])) = 4"
proof -
  note all = report_format [OF example_contact_run]
  have csv: "writerows [[''id'', ''contact''], [''x'', ''XXXXXX''], [''y'', ''XXXXXX''],
                        [''z'', ''XXXXXX'']]
      = ''id,contact'' @ [CR, LF] @ ''x,XXXXXX'' @ [CR, LF] @ ''y,XXXXXX'' @ [CR, LF]
            @ ''z,XXXXXX'' @ [CR, LF]"
    by (simp add: csv_eval)
  have report: "report_content [(''PHONE_NUMBER'', 2), (''EMAIL_ADDRESS'', 1)]
      = code_points (''Summary Report'' @ [LF] @ ''--------------'' @ [LF]
            @ ''Total Phone Number found: 2'' @ [LF]
            @ ''Total Email Address found: 1'' @ [LF])"
    by (simp add: report_eval LF_def)
  have data: "deidentify_data contact_analyzer replace_anonymizer example_contact_csv =
     Inr (''id,contact'' @ [CR, LF] @ ''x,XXXXXX'' @ [CR, LF] @ ''y,XXXXXX'' @ [CR, LF]
            @ ''z,XXXXXX'' @ [CR, LF],
          code_points (''Summary Report'' @ [LF] @ ''--------------'' @ [LF]
            @ ''Total Phone Number found: 2'' @ [LF]
            @ ''Total Email Address found: 1'' @ [LF]))"
    using all [THEN conjunct1] unfolding csv report .
  note order = all [THEN conjunct2, THEN conjunct2, THEN conjunct1]
  have first: "first_occurrences
       (map entity_type (grid_results contact_analyzer (tl (input_rows example_contact_csv))))
     = [''PHONE_NUMBER'', ''EMAIL_ADDRESS'']"
    by (simp add: example_contact_results)
  have count: "length (filter (\<lambda>n. n = of_char LF)
             (report_content [(''PHONE_NUMBER'', 2), (''EMAIL_ADDRESS'', 1)])) = 4"
    using all [THEN conjunct2, THEN conjunct2, THEN conjunct2, THEN conjunct2, THEN conjunct2]
    by (simp add: LF_def)
  show ?thesis
    by (rule conjI [OF example_contact_run conjI [OF data conjI [OF order conjI [OF first count]]]])
qed

text \<open>
  Claim C7 as stated fails in the format of the per-type line: for one detected
  \<open>EMAIL_ADDRESS\<close> the report holds \<open>Total Email Address found: 1\<close>, not
  \<open>Email Address: 1 found\<close>.
\<close>

theorem report_line_format_differs:
  "deidentify_data stub_analyzer replace_anonymizer example_csv =
     Inr (''name,email'' @ [CR, LF] @ ''Alice,XXXXXX'' @ [CR, LF],
          code_points (''Summary Report'' @ [LF] @ ''--------------'' @ [LF]
            @ ''Total Email Address found: 1'' @ [LF])) \<and>
   claimed_report_line ''EMAIL_ADDRESS'' 1 = code_points ''Email Address: 1 found'' \<and>
   report_content [(''EMAIL_ADDRESS'', 1)] \<noteq>
     code_points (''Summary Report'' @ [LF] @ ''--------------'' @ [LF])
       @ claimed_report_line ''EMAIL_ADDRESS'' 1 @ code_points [LF]"
proof -
  have run: "deidentify_data stub_analyzer replace_anonymizer example_csv =
     Inr (''name,email'' @ [CR, LF] @ ''Alice,XXXXXX'' @ [CR, LF],
          code_points (''Summary Report'' @ [LF] @ ''--------------'' @ [LF]
            @ ''Total Email Address found: 1'' @ [LF]))"
    using deidentify_data_rows [OF example_run]
    by (simp add: csv_eval report_eval)
  have line: "claimed_report_line ''EMAIL_ADDRESS'' 1 = code_points ''Email Address: 1 found''"
    by (simp add: claimed_report_line_def report_eval)
  have report: "report_content [(''EMAIL_ADDRESS'', 1)]
      = code_points (''Summary Report'' @ [LF] @ ''--------------'' @ [LF]
          @ ''Total Email Address found: 1'' @ [LF])"
    by (simp add: report_eval LF_def)
  from run line report show ?thesis by (simp add: code_points_def LF_def)
qed

text \<open>
  Claim C2. Let the input parse as a grid, a header row and the data rows, and let the run
  succeed. The output grid has as many rows as the input grid, and each output row has as
  many cells as the input row at its position. The first output row is the input header,
  and the first record of the CSV text returned, read back by the CSV reader, is that
  header, cell for cell. The header is never given to the engines: the masked rows and
  the counts are those of the data rows, and engines that agree with the given ones on
  the cells of the data rows give the same run, whatever they do on the cells of the
  header.
\<close>

theorem shape_and_header_preserved:
  assumes rows: "input_rows input_csv_content = header # rows"
    and parses: "input_end input_csv_content = StopIteration"
    and run: "deidentify_rows an ano input_csv_content = Inr (deidentified_lines, total_pii_found)"
  shows "length deidentified_lines = length (header # rows) \<and>
         map length deidentified_lines = map length (header # rows) \<and>
         hd deidentified_lines = header \<and>
         deidentify_data an ano input_csv_content =
           Inr (writerows deidentified_lines, report_content total_pii_found) \<and>
         Reader_iternext (StringIO_lines (writerows deidentified_lines)) =
           Inr (header, StringIO_lines (writerows (tl deidentified_lines))) \<and>
         mask_rows an ano rows = Inr (tl deidentified_lines) \<and>
         total_pii_found = update_counts (grid_results an rows) [] \<and>
         (\<forall>an' ano'.
            (\<forall>row\<in>set rows. \<forall>cell\<in>set row.
               an' cell ''en'' = an cell ''en'' \<and>
               (\<forall>results. ano' cell results operators = ano cell results operators))
            \<longrightarrow> deidentify_rows an' ano' input_csv_content
                  = Inr (deidentified_lines, total_pii_found))"
proof -
  from deidentify_rows_Inr [OF run] rows obtain masked where
    masked: "mask_rows an ano rows = Inr masked"
    and out: "deidentified_lines = header # masked"
    and total: "total_pii_found = update_counts (grid_results an rows) []"
    by auto
  from input_rows_within_limit [of input_csv_content] rows
  have lim: "list_all (\<lambda>f. length f \<le> field_size_limit) header"
    by simp
  have w: "writerows (header # masked) = writerow header @ writerows masked"
    by (simp add: writerows_def)
  from mask_rows_shape [OF masked] have shape: "map length masked = map length rows" .
  then have "length masked = length rows"
    by (rule map_eq_imp_length_eq)
  have engines: "\<forall>an' ano'.
      (\<forall>row\<in>set rows. \<forall>cell\<in>set row.
         an' cell ''en'' = an cell ''en'' \<and>
         (\<forall>results. ano' cell results operators = ano cell results operators))
      \<longrightarrow> deidentify_rows an' ano' input_csv_content = Inr (deidentified_lines, total_pii_found)"
    using deidentify_rows_cong_on [OF rows] run by metis
  have first: "length deidentified_lines = length (header # rows) \<and>
         map length deidentified_lines = map length (header # rows) \<and>
         hd deidentified_lines = header \<and>
         deidentify_data an ano input_csv_content =
           Inr (writerows deidentified_lines, report_content total_pii_found) \<and>
         Reader_iternext (StringIO_lines (writerows deidentified_lines)) =
           Inr (header, StringIO_lines (writerows (tl deidentified_lines))) \<and>
         mask_rows an ano rows = Inr (tl deidentified_lines) \<and>
         total_pii_found = update_counts (grid_results an rows) []"
    using \<open>length masked = length rows\<close> shape deidentify_data_rows [OF run]
      Reader_iternext_writerow [OF lim, of "writerows masked"] masked total
    by (simp add: out w)
  from first engines show ?thesis
    by (simp only: simp_thms)
qed

theorem shape_and_header_preserved_witness:
  "input_rows example_header_csv = [''e@mail'', ''note!''] # [[''a@x.org'', ''ok'']] \<and>
   input_end example_header_csv = StopIteration \<and>
   deidentify_rows stub_analyzer replace_anonymizer example_header_csv =
     Inr ([[''e@mail'', ''note!''], [''XXXXXX'', ''ok'']], [(''EMAIL_ADDRESS'', 1)]) \<and>
   map length [[''e@mail'', ''note!''], [''XXXXXX'', ''ok'']] =
     map length ([''e@mail'', ''note!''] # [[''a@x.org'', ''ok'']]) \<and>
   stub_analyzer ''note!'' ''en'' = Inl (AnalyzerError ''unsupported input'') \<and>
   Reader_iternext
       (StringIO_lines (writerows [[''e@mail'', ''note!''], [''XXXXXX'', ''ok'']])) =
     Inr ([''e@mail'', ''note!''], StringIO_lines (writerows [[''XXXXXX'', ''ok'']]))"
proof -
  have rows: "input_rows example_header_csv = [''e@mail'', ''note!''] # [[''a@x.org'', ''ok'']]"
    by (simp add: input_rows_def example_header_rows)
  have parses: "input_end example_header_csv = StopIteration"
    by (simp add: input_end_def example_header_rows)
  note all = shape_and_header_preserved [OF rows parses example_header_run]
  have raises: "stub_analyzer ''note!'' ''en'' = Inl (AnalyzerError ''unsupported input'')"
    by (simp add: stub_analyzer_def)
  from all rows parses example_header_run raises show ?thesis
    by simp
qed

text \<open>
  Claim C8, amended. For an input that parses as a header alone, the run succeeds whatever
  the engines: the output grid is the header, the dictionary is empty and the report
  states that no PII was found. The CSV text returned is the header as the writer
  serialises it: its fields, quoted where they hold a comma, a quote or a line break and
  joined by commas (\<open>""\<close> for a single empty field), then CR LF. Given as input, that
  text is returned unchanged. Every row of every output is written in this form, so CR LF
  is the one line end of the output. On input both line ends are taken: the written
  header ended by LF and the one ended by CR LF parse to the same header, and the run
  on the former returns the latter, which is not its input.
\<close>

theorem header_only_input:
  assumes rows: "input_rows input_csv_content = [header]"
    and parses: "input_end input_csv_content = StopIteration"
  shows "deidentify_rows an ano input_csv_content = Inr ([header], []) \<and>
         deidentify_data an ano input_csv_content =
           Inr (writerow header,
                code_points (''Summary Report'' @ [LF] @ ''--------------'' @ [LF]
                  @ ''No PII found in the provided data.'' @ [LF])) \<and>
         deidentify_data an ano (writerow header) =
           Inr (writerow header,
                code_points (''Summary Report'' @ [LF] @ ''--------------'' @ [LF]
                  @ ''No PII found in the provided data.'' @ [LF])) \<and>
         writerow header =
           (if header = [''''] then [quotechar, quotechar] else joined_fields header) @ [CR, LF] \<and>
         (\<forall>rows. writerows rows =
            concat (map (\<lambda>row. (if row = [''''] then [quotechar, quotechar]
                                 else joined_fields row) @ [CR, LF]) rows)) \<and>
         input_rows (written_row header @ [LF]) = [header] \<and>
         input_rows (written_row header @ [CR, LF]) = [header] \<and>
         deidentify_data an ano (written_row header @ [LF]) =
           Inr (written_row header @ [CR, LF],
                code_points (''Summary Report'' @ [LF] @ ''--------------'' @ [LF]
                  @ ''No PII found in the provided data.'' @ [LF])) \<and>
         written_row header @ [CR, LF] \<noteq> written_row header @ [LF]"
proof -
  have run: "deidentify_rows an ano input_csv_content = Inr ([header], [])"
    by (simp add: deidentify_rows_spec rows parses grid_results_Nil)
  from input_rows_within_limit [of input_csv_content] rows
  have lim: "list_all (list_all (\<lambda>f. length f \<le> field_size_limit)) [header]"
    by simp
  then have lim1: "list_all (\<lambda>f. length f \<le> field_size_limit) header"
    by simp
  have w: "writerows [header] = writerow header"
    by (simp add: writerows_def)
  have again: "deidentify_rows an ano (writerow header) = Inr ([header], [])"
    using input_of_writerows [OF lim]
    by (simp add: deidentify_rows_spec w grid_results_Nil)
  have report: "report_content [] =
      code_points (''Summary Report'' @ [LF] @ ''--------------'' @ [LF]
        @ ''No PII found in the provided data.'' @ [LF])"
    by (simp add: report_content_def code_points_def)
  have writerow_fn: "writerow =
      (\<lambda>row. (if row = [''''] then [quotechar, quotechar] else joined_fields row) @ [CR, LF])"
    by (rule ext) (rule writerow_eq)
  have all_rows: "\<forall>rows. writerows rows =
      concat (map (\<lambda>row. (if row = [''''] then [quotechar, quotechar]
                           else joined_fields row) @ [CR, LF]) rows)"
    unfolding writerows_def
    by (subst writerow_fn) (rule allI, rule refl)
  have c2: "deidentify_data an ano input_csv_content = Inr (writerow header, report_content [])"
    using run by (simp add: deidentify_data_def w)
  have c3: "deidentify_data an ano (writerow header) = Inr (writerow header, report_content [])"
    using again by (simp add: deidentify_data_def w)
  have lf_rows: "input_rows (written_row header @ [LF]) = [header]"
    by (rule input_of_row_LF(1) [OF lim1])
  have crlf_rows: "input_rows (written_row header @ [CR, LF]) = [header]"
    using input_of_writerows(1) [OF lim] by (simp add: w writerow_written_row)
  have lf_run: "deidentify_rows an ano (written_row header @ [LF]) = Inr ([header], [])"
    using input_of_row_LF [OF lim1]
    by (simp add: deidentify_rows_spec grid_results_Nil)
  have c8: "deidentify_data an ano (written_row header @ [LF]) =
      Inr (written_row header @ [CR, LF], report_content [])"
    using lf_run by (simp add: deidentify_data_def w writerow_written_row)
  have differs: "written_row header @ [CR, LF] \<noteq> written_row header @ [LF]"
    by simp
  show ?thesis
    by (rule conjI [OF run conjI [OF c2 [unfolded report] conjI [OF c3 [unfolded report]
          conjI [OF writerow_eq [of header] conjI [OF all_rows conjI [OF lf_rows
          conjI [OF crlf_rows conjI [OF c8 [unfolded report] differs]]]]]]]])
qed

theorem header_only_input_witness:
  "input_rows (''name,email'' @ [LF]) = [[''name'', ''email'']] \<and>
   input_end (''name,email'' @ [LF]) = StopIteration \<and>
   input_rows (''name,email'' @ [CR, LF]) = [[''name'', ''email'']] \<and>
   writerow [''name'', ''email''] = ''name,email'' @ [CR, LF] \<and>
   deidentify_rows stub_analyzer replace_anonymizer (''name,email'' @ [LF]) =
     Inr ([[''name'', ''email'']], []) \<and>
   deidentify_data stub_analyzer replace_anonymizer (''name,email'' @ [LF]) =
     Inr (''name,email'' @ [CR, LF],
          code_points (''Summary Report'' @ [LF] @ ''--------------'' @ [LF]
            @ ''No PII found in the provided data.'' @ [LF])) \<and>
   deidentify_data stub_analyzer replace_anonymizer (''name,email'' @ [CR, LF]) =
     Inr (''name,email'' @ [CR, LF],
          code_points (''Summary Report'' @ [LF] @ ''--------------'' @ [LF]
            @ ''No PII found in the provided data.'' @ [LF]))"
proof -
  have lf: "read_all (StringIO_lines (''name,email'' @ [LF])) =
      ([[''name'', ''email'']], StopIteration)"
    by (simp add: read_all.simps csv_eval)
  have crlf: "read_all (StringIO_lines (''name,email'' @ [CR, LF])) =
      ([[''name'', ''email'']], StopIteration)"
    by (simp add: read_all.simps csv_eval)
  have rows: "input_rows (''name,email'' @ [LF]) = [[''name'', ''email'']]"
    and parses: "input_end (''name,email'' @ [LF]) = StopIteration"
    unfolding input_rows_def input_end_def lf by simp_all
  have w: "writerow [''name'', ''email''] = ''name,email'' @ [CR, LF]"
    by (simp add: csv_eval)
  have rows': "input_rows (''name,email'' @ [CR, LF]) = [[''name'', ''email'']]"
    unfolding input_rows_def crlf by simp
  note all = header_only_input [OF rows parses, of stub_analyzer replace_anonymizer]
  note run = all [THEN conjunct1]
  note out = all [THEN conjunct2, THEN conjunct1, unfolded w]
  note fixed = all [THEN conjunct2, THEN conjunct2, THEN conjunct1, unfolded w]
  show ?thesis
    by (rule conjI [OF rows conjI [OF parses conjI [OF rows' conjI [OF w conjI [OF run conjI [OF out fixed]]]]]])
qed

text \<open>
  Claim C8 as stated fails for its own example: the input \<open>name,email\<close> ended by LF is
  returned as \<open>name,email\<close> ended by CR LF, which is not the input text.
\<close>

theorem header_only_output_differs_from_LF_input:
  "(\<forall>an ano. deidentify_data an ano (''name,email'' @ [LF]) =
      Inr (''name,email'' @ [CR, LF],
           code_points (''Summary Report'' @ [LF] @ ''--------------'' @ [LF]
             @ ''No PII found in the provided data.'' @ [LF]))) \<and>
   ''name,email'' @ [CR, LF] \<noteq> ''name,email'' @ [LF]"
proof -
  have "deidentify_data an ano (''name,email'' @ [LF]) =
      Inr (''name,email'' @ [CR, LF],
           code_points (''Summary Report'' @ [LF] @ ''--------------'' @ [LF]
             @ ''No PII found in the provided data.'' @ [LF]))" for an ano
    by (simp add: pipeline_eval csv_eval report_content_def code_points_def)
  moreover have "''name,email'' @ [CR, LF] \<noteq> ''name,email'' @ [LF]"
    by simp
  ultimately show ?thesis by blast
qed

text \<open>
  Claim C9. Let the pipeline succeed on an input in none of whose non-blank data cells
  the analyzer finds an entity. Then its report states that no PII was found, and the
  pipeline run on the CSV text it returned succeeds again, returns that very text and
  the same report. The text returned parses to the grid of the input.
\<close>

theorem no_pii_idempotence:
  assumes run: "deidentify_data an ano input_csv_content = Inr (deidentified_csv, report)"
    and clean: "\<forall>row\<in>set (tl (input_rows input_csv_content)). \<forall>cell\<in>set row.
                  strip cell \<noteq> '''' \<longrightarrow> an cell ''en'' = Inr []"
  shows "deidentify_data an ano deidentified_csv =
           Inr (deidentified_csv,
                code_points (''Summary Report'' @ [LF] @ ''--------------'' @ [LF]
                  @ ''No PII found in the provided data.'' @ [LF])) \<and>
         report = code_points (''Summary Report'' @ [LF] @ ''--------------'' @ [LF]
                  @ ''No PII found in the provided data.'' @ [LF]) \<and>
         input_rows deidentified_csv = input_rows input_csv_content"
proof -
  from run obtain deidentified_lines total_pii_found where
    rows_run: "deidentify_rows an ano input_csv_content = Inr (deidentified_lines, total_pii_found)"
    and csv: "deidentified_csv = writerows deidentified_lines"
    and rep: "report = report_content total_pii_found"
    by (auto simp: deidentify_data_def split: sum.splits)
  from deidentify_rows_Inr [OF rows_run] obtain header rows masked where
    rows: "input_rows input_csv_content = header # rows"
    and masked: "mask_rows an ano rows = Inr masked"
    and out: "deidentified_lines = header # masked"
    and total: "total_pii_found = update_counts (grid_results an rows) []"
    by blast
  from clean rows have clean': "\<forall>row\<in>set rows. \<forall>cell\<in>set row.
      strip cell \<noteq> '''' \<longrightarrow> an cell ''en'' = Inr []"
    by simp
  from mask_rows_clean [of rows an ano, OF clean'] masked total
  have same: "masked = rows" and none: "total_pii_found = []"
    by simp_all
  from input_rows_within_limit [of input_csv_content]
  have lim: "list_all (list_all (\<lambda>f. length f \<le> field_size_limit)) (header # rows)"
    by (simp add: rows)
  have again: "deidentify_rows an ano (writerows (header # rows)) = Inr (header # rows, [])"
    using input_of_writerows [OF lim] mask_rows_clean [of rows an ano, OF clean']
    by (simp add: deidentify_rows_spec)
  have report: "report_content [] =
      code_points (''Summary Report'' @ [LF] @ ''--------------'' @ [LF]
        @ ''No PII found in the provided data.'' @ [LF])"
    by (simp add: report_content_def code_points_def)
  from again input_of_writerows(1) [OF lim] show ?thesis
    by (simp add: deidentify_data_def csv rep out same none report rows)
qed

theorem no_pii_idempotence_witness:
  "deidentify_data stub_analyzer replace_anonymizer example_clean_csv =
     Inr (''id,note'' @ [CR, LF] @ ''1,a b'' @ [CR, LF] @ [CR, LF] @ ''2, '' @ [CR, LF],
          code_points (''Summary Report'' @ [LF] @ ''--------------'' @ [LF]
            @ ''No PII found in the provided data.'' @ [LF])) \<and>
   input_rows example_clean_csv = [[''id'', ''note''], [''1'', ''a b''], [], [''2'', '' '']] \<and>
   deidentify_data stub_analyzer replace_anonymizer
       (''id,note'' @ [CR, LF] @ ''1,a b'' @ [CR, LF] @ [CR, LF] @ ''2, '' @ [CR, LF]) =
     Inr (''id,note'' @ [CR, LF] @ ''1,a b'' @ [CR, LF] @ [CR, LF] @ ''2, '' @ [CR, LF],
          code_points (''Summary Report'' @ [LF] @ ''--------------'' @ [LF]
            @ ''No PII found in the provided data.'' @ [LF]))"
proof -
  have rows: "input_rows example_clean_csv =
      [[''id'', ''note''], [''1'', ''a b''], [], [''2'', '' '']]"
    by (simp add: input_rows_def example_clean_csv_def read_all.simps csv_eval)
  have run: "deidentify_data stub_analyzer replace_anonymizer example_clean_csv =
     Inr (''id,note'' @ [CR, LF] @ ''1,a b'' @ [CR, LF] @ [CR, LF] @ ''2, '' @ [CR, LF],
          code_points (''Summary Report'' @ [LF] @ ''--------------'' @ [LF]
            @ ''No PII found in the provided data.'' @ [LF]))"
    by (simp add: example_clean_csv_def pipeline_eval csv_eval stub_eval report_content_def
          code_points_def)
  have clean: "\<forall>row\<in>set (tl (input_rows example_clean_csv)). \<forall>cell\<in>set row.
      strip cell \<noteq> '''' \<longrightarrow> stub_analyzer cell ''en'' = Inr []"
    by (simp add: rows stub_analyzer_def)
  from no_pii_idempotence [OF run clean] run rows show ?thesis
    by simp
qed

end
